theory Spec2Isabelle
  imports Main "HOL-Library.Word"
begin

unbundle bit_operations_syntax

section \<open>The allocator of simple\_malloc.c\<close>

text \<open>
  The allocator keeps an implicit free list with boundary tags in a region obtained
  from \<open>sbrk\<close>. The model fixes the LP64 data model of the glibc platform the file is
  written for: \<open>size_t\<close> is a 64-bit word, \<open>unsigned int\<close> (the header and footer
  words read and written by \<open>GET\<close> and \<open>PUT\<close>) is a 32-bit word. Addresses are
  integers (byte addresses); pointer arithmetic is integer arithmetic. A pointer result
  that may be \<open>NULL\<close> is an \<open>int option\<close>, \<open>None\<close> standing for \<open>NULL\<close>.
\<close>

type_synonym size_t = "64 word"
type_synonym memory = "int \<Rightarrow> 32 word"

text \<open>
  The machine state: the memory (one 32-bit word per word address; every access of the
  allocator is a 4-byte access through \<open>GET\<close> or \<open>PUT\<close>), the global \<open>heap_ptr\<close>
  (\<open>0\<close> is \<open>NULL\<close>, \<open>-1\<close> is \<open>(void * )-1\<close>), and the environment behind \<open>sbrk\<close>: the
  current program break and the highest break the environment grants.
\<close>

record machine =
  mem :: memory
  heap_ptr :: int
  brk :: int
  brk_max :: int

abbreviation (input) WSIZE :: "'a::numeral" where "WSIZE \<equiv> 4"
abbreviation (input) DSIZE :: "'a::numeral" where "DSIZE \<equiv> 8"
abbreviation (input) CHUNKSIZE :: "'a::numeral" where "CHUNKSIZE \<equiv> 4096"

subsection \<open>The macros\<close>

definition PACK :: "size_t \<Rightarrow> size_t \<Rightarrow> size_t" where
  "PACK sz alloc = sz OR alloc"

definition GET :: "memory \<Rightarrow> int \<Rightarrow> 32 word" where
  "GET m p = m p"

text \<open>\<open>PUT\<close> stores through an \<open>unsigned int *\<close>: a \<open>size_t\<close> value is cut to 32 bits.\<close>

definition PUT :: "int \<Rightarrow> size_t \<Rightarrow> memory \<Rightarrow> memory" where
  "PUT p val m = m(p := ucast val)"

definition GET_SIZE :: "memory \<Rightarrow> int \<Rightarrow> 32 word" where
  "GET_SIZE m p = GET m p AND NOT 7"

definition GET_ALLOC :: "memory \<Rightarrow> int \<Rightarrow> 32 word" where
  "GET_ALLOC m p = GET m p AND 1"

definition HDRP :: "int \<Rightarrow> int" where
  "HDRP bp = bp - WSIZE"

definition FTRP :: "memory \<Rightarrow> int \<Rightarrow> int" where
  "FTRP m bp = bp + uint (GET_SIZE m (HDRP bp)) - DSIZE"

definition NEXT_BLKP :: "memory \<Rightarrow> int \<Rightarrow> int" where
  "NEXT_BLKP m bp = bp + uint (GET_SIZE m (bp - WSIZE))"

definition PREV_BLKP :: "memory \<Rightarrow> int \<Rightarrow> int" where
  "PREV_BLKP m bp = bp - uint (GET_SIZE m (bp - DSIZE))"

subsection \<open>The environment\<close>

text \<open>
  \<open>sbrk(intptr_t increment)\<close>: the \<open>size_t\<close> argument is read as a signed 64-bit
  increment. The call moves the break and returns the old one, or fails (\<open>None\<close>, the
  \<open>(void * )-1\<close> of the C library) and leaves the state as it is: when the new break would
  pass the limit of the environment, and, for a negative increment, when the new break
  would lie below address zero, which the C library refuses.
\<close>

definition sbrk :: "size_t \<Rightarrow> machine \<Rightarrow> int option \<times> machine" where
  "sbrk increment s =
     (let new_brk = brk s + sint increment
      in if new_brk \<le> brk_max s \<and> (0 \<le> sint increment \<or> 0 \<le> new_brk)
         then (Some (brk s), s\<lparr>brk := new_brk\<rparr>) else (None, s))"

subsection \<open>The functions\<close>

text \<open>
  \<open>coalesce\<close>, \<open>place\<close> touch the memory only. Each macro reads the memory as it is at
  that point of the function, so the memory is threaded through the \<open>PUT\<close>s in the
  order of the source. In the fourth case of \<open>coalesce\<close> the two neighbour sizes are
  \<open>unsigned int\<close> values that C adds in 32 bits before the sum is widened.
\<close>

definition coalesce :: "int \<Rightarrow> memory \<Rightarrow> int \<times> memory" where
  "coalesce bp m =
     (let prev_alloc = (ucast (GET_ALLOC m (FTRP m (PREV_BLKP m bp))) :: size_t);
          next_alloc = (ucast (GET_ALLOC m (HDRP (NEXT_BLKP m bp))) :: size_t);
          sz = (ucast (GET_SIZE m (HDRP bp)) :: size_t)
      in if prev_alloc \<noteq> 0 \<and> next_alloc \<noteq> 0 then (bp, m)
         else if prev_alloc \<noteq> 0 \<and> \<not> next_alloc \<noteq> 0 then
           (let sz1 = sz + ucast (GET_SIZE m (HDRP (NEXT_BLKP m bp)));
                m1 = PUT (HDRP bp) (PACK sz1 0) m;
                m2 = PUT (FTRP m1 bp) (PACK sz1 0) m1
            in (bp, m2))
         else if \<not> prev_alloc \<noteq> 0 \<and> next_alloc \<noteq> 0 then
           (let sz1 = sz + ucast (GET_SIZE m (HDRP (PREV_BLKP m bp)));
                m1 = PUT (FTRP m bp) (PACK sz1 0) m;
                m2 = PUT (HDRP (PREV_BLKP m1 bp)) (PACK sz1 0) m1
            in (PREV_BLKP m2 bp, m2))
         else
           (let sz1 = sz + ucast (GET_SIZE m (HDRP (PREV_BLKP m bp))
                                      + GET_SIZE m (FTRP m (NEXT_BLKP m bp)));
                m1 = PUT (HDRP (PREV_BLKP m bp)) (PACK sz1 0) m;
                m2 = PUT (FTRP m1 (NEXT_BLKP m1 bp)) (PACK sz1 0) m1
            in (PREV_BLKP m2 bp, m2)))"

definition mm_free :: "int \<Rightarrow> machine \<Rightarrow> machine" where
  "mm_free bp s =
     (let sz = (ucast (GET_SIZE (mem s) (HDRP bp)) :: size_t);
          m1 = PUT (HDRP bp) (PACK sz 0) (mem s);
          m2 = PUT (FTRP m1 bp) (PACK sz 0) m1
      in s\<lparr>mem := snd (coalesce bp m2)\<rparr>)"

definition extend_heap :: "size_t \<Rightarrow> machine \<Rightarrow> int option \<times> machine" where
  "extend_heap words s =
     (let sz = (if words mod 2 \<noteq> 0 then (words + 1) * WSIZE else words * WSIZE)
      in case sbrk sz s of
           (None, s1) \<Rightarrow> (None, s1)
         | (Some bp, s1) \<Rightarrow>
             (let m1 = PUT (HDRP bp) (PACK sz 0) (mem s1);
                  m2 = PUT (FTRP m1 bp) (PACK sz 0) m1;
                  m3 = PUT (HDRP (NEXT_BLKP m2 bp)) (PACK 0 1) m2;
                  (r, m4) = coalesce bp m3
              in (Some r, s1\<lparr>mem := m4\<rparr>)))"

text \<open>
  \<open>mm_init\<close> returns the C status (\<open>0\<close> or \<open>-1\<close>). The result of the first \<open>sbrk\<close> is
  assigned to \<open>heap_ptr\<close> before it is tested, so a failure leaves \<open>(void * )-1\<close> there.
\<close>

definition mm_init :: "machine \<Rightarrow> int \<times> machine" where
  "mm_init s =
     (case sbrk (4 * WSIZE) s of
        (None, s1) \<Rightarrow> (-1, s1\<lparr>heap_ptr := -1\<rparr>)
      | (Some p, s1) \<Rightarrow>
          (let m1 = PUT p 0 (mem s1);
               m2 = PUT (p + WSIZE) (PACK DSIZE 1) m1;
               m3 = PUT (p + 2 * WSIZE) (PACK DSIZE 1) m2;
               m4 = PUT (p + 3 * WSIZE) (PACK 0 1) m3;
               s2 = s1\<lparr>mem := m4, heap_ptr := p + 2 * WSIZE\<rparr>
           in case extend_heap (CHUNKSIZE div WSIZE) s2 of
                (None, s3) \<Rightarrow> (-1, s3)
              | (Some extended_heap_ptr, s3) \<Rightarrow> (0, s3)))"

definition place :: "int \<Rightarrow> size_t \<Rightarrow> memory \<Rightarrow> memory" where
  "place bp requested_size m =
     (let free_size = (ucast (GET_SIZE m (HDRP bp)) :: size_t)
      in if free_size - requested_size \<ge> 2 * DSIZE then
           (let m1 = PUT (HDRP bp) (PACK requested_size 1) m;
                m2 = PUT (FTRP m1 bp) (PACK requested_size 1) m1;
                bp1 = NEXT_BLKP m2 bp;
                m3 = PUT (HDRP bp1) (PACK (free_size - requested_size) 0) m2;
                m4 = PUT (FTRP m3 bp1) (PACK (free_size - requested_size) 0) m3
            in m4)
         else
           (let m1 = PUT (HDRP bp) (PACK free_size 1) m;
                m2 = PUT (FTRP m1 bp) (PACK free_size 1) m1
            in m2))"

text \<open>
  The loop of \<open>find_fit\<close>. Nothing in the source bounds it: on a memory whose headers
  never show size zero it does not return, which is the value \<open>None\<close> here. A result
  \<open>Some None\<close> is the \<open>NULL\<close> of the source, \<open>Some (Some bp)\<close> the block found.
\<close>

partial_function (option) find_fit_loop :: "memory \<Rightarrow> size_t \<Rightarrow> int \<Rightarrow> int option option" where
  "find_fit_loop m sz bp =
     (if GET_SIZE m (HDRP bp) > 0 then
        (if \<not> GET_ALLOC m (HDRP bp) \<noteq> 0 \<and> sz \<le> ucast (GET_SIZE m (HDRP bp)) then Some (Some bp)
         else find_fit_loop m sz (NEXT_BLKP m bp))
      else Some None)"

declare find_fit_loop.simps [code]

definition find_fit :: "size_t \<Rightarrow> machine \<Rightarrow> int option option" where
  "find_fit sz s = find_fit_loop (mem s) sz (heap_ptr s)"

text \<open>The two local computations of \<open>mm_malloc\<close>: \<open>new_size\<close> and \<open>extend_words\<close>.\<close>

definition new_size :: "size_t \<Rightarrow> size_t" where
  "new_size sz = (if sz \<le> DSIZE then 2 * DSIZE else (DSIZE + sz + DSIZE - 1) div DSIZE * DSIZE)"

definition extend_words :: "size_t \<Rightarrow> size_t" where
  "extend_words nsize = (if nsize > CHUNKSIZE then nsize div WSIZE + 1 else CHUNKSIZE div WSIZE)"

text \<open>
  \<open>mm_malloc\<close>: the outer \<open>option\<close> is \<open>None\<close> when \<open>find_fit\<close> does not return; the
  pointer result is \<open>None\<close> for \<open>NULL\<close>.
\<close>

definition mm_malloc :: "size_t \<Rightarrow> machine \<Rightarrow> (int option \<times> machine) option" where
  "mm_malloc sz s =
     (if sz = 0 then Some (None, s)
      else case find_fit (new_size sz) s of
             None \<Rightarrow> None
           | Some (Some bp) \<Rightarrow> Some (Some bp, s\<lparr>mem := place bp (new_size sz) (mem s)\<rparr>)
           | Some None \<Rightarrow>
               (case extend_heap (extend_words (new_size sz)) s of
                  (None, s1) \<Rightarrow> Some (None, s1)
                | (Some extended_heap_ptr, s1) \<Rightarrow>
                    Some (Some extended_heap_ptr,
                          s1\<lparr>mem := place extended_heap_ptr (new_size sz) (mem s1)\<rparr>)))"

section \<open>Block sequences: the abstract view of the heap\<close>

text \<open>
  The word that \<open>PUT\<close> stores for \<open>PACK(n, a)\<close>: the boundary tag of a block of \<open>n\<close>
  bytes, allocated or free.
\<close>

definition tag :: "nat \<Rightarrow> bool \<Rightarrow> 32 word" where
  "tag n a = ucast (PACK (of_nat n) (if a then 1 else 0))"

text \<open>
  The local \<open>size\<close> of \<open>extend_heap\<close>: the number of bytes it asks \<open>sbrk\<close> for when it is
  called with \<open>words\<close>.
\<close>

definition request_bytes :: "size_t \<Rightarrow> size_t" where
  "request_bytes words = (if words mod 2 \<noteq> 0 then (words + 1) * WSIZE else words * WSIZE)"

text \<open>
  A block is its size in bytes and its allocation flag. \<open>blocks m bp bs\<close> says that the
  memory holds the blocks \<open>bs\<close> one after the other, the first with block pointer \<open>bp\<close>:
  every block has a size that is a multiple of eight, at least eight and below \<open>2^32\<close>, and
  its header (at \<open>bp - 4\<close>) and footer (at \<open>bp + n - 8\<close>) both hold its tag. Nothing is said
  about the payload words.
\<close>

type_synonym block = "nat \<times> bool"

fun total :: "block list \<Rightarrow> nat" where
  "total [] = 0"
| "total ((n, a) # bs) = n + total bs"

fun blocks :: "memory \<Rightarrow> int \<Rightarrow> block list \<Rightarrow> bool" where
  "blocks m bp [] = True"
| "blocks m bp ((n, a) # bs) =
     (8 \<le> n \<and> 8 dvd n \<and> n < 2 ^ 32 \<and> m (bp - 4) = tag n a \<and> m (bp + int n - 8) = tag n a
      \<and> blocks m (bp + int n) bs)"

text \<open>The block pointers of the allocated blocks of a sequence that starts at \<open>bp\<close>.\<close>

fun block_addrs :: "int \<Rightarrow> block list \<Rightarrow> int set" where
  "block_addrs bp [] = {}"
| "block_addrs bp ((n, a) # bs) = (if a then {bp} else {}) \<union> block_addrs (bp + int n) bs"

fun no_adjacent_free :: "block list \<Rightarrow> bool" where
  "no_adjacent_free (x # y # bs) = ((snd x \<or> snd y) \<and> no_adjacent_free (y # bs))"
| "no_adjacent_free bs = True"

text \<open>
  Coalescing on block sequences: a free block of \<open>n\<close> bytes between the blocks \<open>xs\<close> and
  \<open>ys\<close> is merged with the last block of \<open>xs\<close> and the first of \<open>ys\<close> where they are free.
  \<open>coalesced_at\<close> is the block pointer of the merged block.
\<close>

definition coalesced :: "block list \<Rightarrow> nat \<Rightarrow> block list \<Rightarrow> block list" where
  "coalesced xs n ys =
     (let prev_free = (xs \<noteq> [] \<and> \<not> snd (last xs));
          next_free = (ys \<noteq> [] \<and> \<not> snd (hd ys))
      in if \<not> prev_free \<and> \<not> next_free then xs @ (n, False) # ys
         else if \<not> prev_free \<and> next_free then xs @ (n + fst (hd ys), False) # tl ys
         else if prev_free \<and> \<not> next_free then butlast xs @ (fst (last xs) + n, False) # ys
         else butlast xs @ (fst (last xs) + n + fst (hd ys), False) # tl ys)"

definition coalesced_at :: "int \<Rightarrow> block list \<Rightarrow> int" where
  "coalesced_at bp xs = (if xs \<noteq> [] \<and> \<not> snd (last xs) then bp - int (fst (last xs)) else bp)"

text \<open>Placement of \<open>k\<close> bytes in a free block of \<open>n\<close> bytes, on block sequences.\<close>

definition placed :: "nat \<Rightarrow> nat \<Rightarrow> block list" where
  "placed n k = (if 16 \<le> n - k then [(k, True), (n - k, False)] else [(n, True)])"

text \<open>
  First fit as the specification words it: the first block of the sequence that is free
  and has at least \<open>k\<close> bytes, by its block pointer; \<open>None\<close> when there is none.
\<close>

fun first_fit :: "int \<Rightarrow> block list \<Rightarrow> nat \<Rightarrow> int option" where
  "first_fit bp [] k = None"
| "first_fit bp ((n, a) # bs) k = (if \<not> a \<and> k \<le> n then Some bp else first_fit (bp + int n) bs k)"

text \<open>
  The adjusted block size as the specification words it (the request plus the eight bytes of
  header and footer, rounded up to a multiple of eight, at least sixteen), and the number of
  bytes by which \<open>mm_malloc\<close> extends the heap for an adjusted size \<open>k\<close>.
\<close>

definition adjusted :: "nat \<Rightarrow> nat" where
  "adjusted n = max 16 (8 * ((n + 8 + 7) div 8))"

definition extension :: "nat \<Rightarrow> nat" where
  "extension k = (if k > 4096 then k + 8 else 4096)"

text \<open>
  The heap invariant. \<open>heap_ptr\<close> is the block pointer of the prologue, a block of eight
  bytes that is allocated; the blocks \<open>bs\<close> follow it and end at the break, where the
  epilogue header stands; no two neighbours in \<open>bs\<close> are free; the environment grants
  less than \<open>2^32\<close> bytes beyond the start of the heap, so that every size fits a 32-bit
  tag. Nothing is asked of the alignment of the heap.
\<close>

definition heap_ok :: "machine \<Rightarrow> block list \<Rightarrow> bool" where
  "heap_ok s bs \<longleftrightarrow>
     blocks (mem s) (heap_ptr s) ((8, True) # bs) \<and>
     brk s = heap_ptr s + 8 + int (total bs) \<and>
     mem s (brk s - 4) = tag 0 True \<and>
     no_adjacent_free bs \<and>
     brk s \<le> brk_max s \<and> brk_max s - heap_ptr s < 2 ^ 32"

text \<open>
  The states a client can reach, with the set of pointers it holds (returned by
  \<open>mm_malloc\<close> and not yet released). A run starts with a successful \<open>mm_init\<close>, on any
  break, in an environment that grants less than \<open>2^32\<close> bytes; \<open>mm_init\<close> on a later
  state starts a new heap, and the pointers of the old one are no longer released.
  Requests are at most \<open>2^63 - 24\<close> bytes, the largest for which neither the adjusted size
  nor the signed argument of \<open>sbrk\<close> wraps around. \<open>mm_free\<close> is called on pointers the
  client holds, and the client may store any word in the payload of a block it holds.
\<close>

inductive reach :: "machine \<Rightarrow> int set \<Rightarrow> bool" where
  init: "\<lbrakk>brk_max s0 - brk s0 < 2 ^ 32; mm_init s0 = (0, s)\<rbrakk> \<Longrightarrow> reach s {}"
| malloc: "\<lbrakk>reach s L; unat n \<le> 2 ^ 63 - 24; mm_malloc n s = Some (r, s')\<rbrakk>
            \<Longrightarrow> reach s' (L \<union> set_option r)"
| free: "\<lbrakk>reach s L; p \<in> L\<rbrakk> \<Longrightarrow> reach (mm_free p s) (L - {p})"
| store: "\<lbrakk>reach s L; p \<in> L; p \<le> a; a < FTRP (mem s) p\<rbrakk>
            \<Longrightarrow> reach (s\<lparr>mem := (mem s)(a := v)\<rparr>) L"

subsection \<open>Concrete states\<close>

text \<open>
  A machine before \<open>mm_init\<close> (break at 1000000, memory zeroed), the state \<open>mm_init\<close>
  leaves (prologue at 1000008, one free block of 4096 bytes at 1000016), and the state
  after the \<open>mm_malloc(48)\<close> of the driver \<open>main\<close>. \<open>tight\<close> is an environment with room
  for the first sixteen bytes only, and \<open>askew\<close> one whose break is no multiple of eight.
\<close>

definition boot :: machine where
  "boot = \<lparr>mem = (\<lambda>_. 0), heap_ptr = 0, brk = 1000000, brk_max = 2000000\<rparr>"

definition booted :: machine where
  "booted = \<lparr>mem = (\<lambda>_. 0)(1000000 := 0, 1000004 := 9, 1000008 := 9, 1000012 := 4096,
                  1004104 := 4096, 1004108 := 1),
              heap_ptr = 1000008, brk = 1004112, brk_max = 2000000\<rparr>"

definition serving :: machine where
  "serving = \<lparr>mem = (\<lambda>_. 0)(1000000 := 0, 1000004 := 9, 1000008 := 9, 1004108 := 1,
                   1000012 := 57, 1000064 := 57, 1000068 := 4040, 1004104 := 4040),
               heap_ptr = 1000008, brk = 1004112, brk_max = 2000000\<rparr>"

definition tight :: machine where
  "tight = \<lparr>mem = (\<lambda>_. 0), heap_ptr = 0, brk = 1000000, brk_max = 1000016\<rparr>"

definition askew :: machine where
  "askew = \<lparr>mem = (\<lambda>_. 0), heap_ptr = 0, brk = 1000004, brk_max = 2000000\<rparr>"

text \<open>
  Three memories for \<open>coalesce\<close>: three free neighbours of 16, 24 and 32 bytes around the
  block pointer 1000040; a prologue followed by two free blocks of \<open>2^31\<close> bytes each, then
  the epilogue; and an allocated block of \<open>2^31\<close> bytes followed by two free blocks of
  \<open>2^30\<close> bytes each, the first with block pointer 2148483664, then the epilogue.
\<close>

definition three_free :: memory where
  "three_free = (\<lambda>_. 0)(1000020 := 16, 1000032 := 16, 1000036 := 24, 1000056 := 24,
                          1000060 := 32, 1000088 := 32, 1000092 := 1)"

definition wide_heap :: memory where
  "wide_heap = (\<lambda>_. 0)(1000004 := 9, 1000008 := 9,
                         1000012 := 2147483648, 2148483656 := 2147483648,
                         2148483660 := 2147483648, 4295967304 := 2147483648,
                         4295967308 := 1)"

definition uneven_heap :: memory where
  "uneven_heap = (\<lambda>_. 0)(1000004 := 9, 1000008 := 9,
                           1000012 := 2147483649, 2148483656 := 2147483649,
                           2148483660 := 1073741824, 3222225480 := 1073741824,
                           3222225484 := 1073741824, 4295967304 := 1073741824,
                           4295967308 := 1)"

section \<open>Auxiliary lemmas\<close>

lemma seven_mask: "(7 :: 'a::len word) = mask 3"
  by (simp add: mask_eq_exp_minus_1)

lemma one_mask: "(1 :: 'a::len word) = mask 1"
  by (simp add: mask_eq_exp_minus_1)

lemma low3_clear:
  fixes x :: "'a::len word"
  assumes "x AND 7 = 0" and "bit x n"
  shows "3 \<le> n"
proof (rule ccontr)
  assume "\<not> 3 \<le> n"
  then have "bit (x AND mask 3) n" using assms(2) by (simp add: bit_simps bit_imp_le_length)
  then show False using assms(1) by (simp add: seven_mask)
qed

lemma below32:
  fixes x :: "64 word"
  assumes "x < 2 ^ 32" and "bit x n"
  shows "n < 32"
proof -
  have "x AND mask 32 = x" using assms(1) by (rule less_mask_eq)
  then have "bit (x AND mask 32) n" using assms(2) by simp
  then show ?thesis by (simp add: bit_simps)
qed

lemma codec_size:
  fixes sz a :: "64 word"
  assumes "sz AND 7 = 0" and "sz < 2 ^ 32" and "a = 0 \<or> a = 1"
  shows "ucast ((ucast (sz OR a) :: 32 word) AND NOT 7) = sz"
proof -
  have h1: "n < 32" if "bit sz n" for n
    using that below32[OF assms(2)] by blast
  have h2: "False" if "bit sz n" "n < 3" for n
    using that low3_clear[OF assms(1)] by fastforce
  show ?thesis
    unfolding seven_mask using assms(3)
    by (auto intro!: bit_word_eqI simp add: bit_simps dest: h1 h2)
qed

lemma codec_alloc:
  fixes sz a :: "64 word"
  assumes "sz AND 7 = 0" and "a = 0 \<or> a = 1"
  shows "ucast ((ucast (sz OR a) :: 32 word) AND 1) = a"
proof -
  have h2: "False" if "bit sz n" "n < 3" for n
    using that low3_clear[OF assms(1)] by fastforce
  have h3: "\<not> bit sz 0" using h2[of 0] by auto
  show ?thesis
    unfolding one_mask using assms(2) h3
    by (auto intro!: bit_word_eqI simp add: bit_simps dest: h2)
qed

lemma of_nat_and7:
  assumes "8 dvd n"
  shows "(of_nat n :: 64 word) AND 7 = 0"
proof -
  have "(of_nat n :: 64 word) AND mask 3 = of_nat (take_bit 3 n)"
    by (simp add: take_bit_of_nat flip: take_bit_eq_mask)
  also have "take_bit 3 n = 0" using assms by (simp add: take_bit_eq_mod)
  finally show ?thesis by (simp add: seven_mask)
qed

lemma of_nat_lt32:
  assumes "n < 2 ^ 32"
  shows "(of_nat n :: 64 word) < 2 ^ 32"
  using assms by (simp add: word_less_nat_alt unat_of_nat)

lemma tag_size64:
  assumes "8 dvd n" and "n < 2 ^ 32"
  shows "(ucast (tag n a AND NOT 7) :: 64 word) = of_nat n"
  unfolding tag_def PACK_def
  by (rule codec_size[OF of_nat_and7[OF assms(1)] of_nat_lt32[OF assms(2)]]) simp

lemma tag_size:
  assumes "8 dvd n" and "n < 2 ^ 32"
  shows "uint (tag n a AND NOT 7) = int n"
proof -
  have "uint (tag n a AND NOT 7) = uint (ucast (tag n a AND NOT 7) :: 64 word)"
    by (simp add: uint_up_ucast is_up)
  also have "\<dots> = uint (of_nat n :: 64 word)" by (simp only: tag_size64[OF assms])
  also have "\<dots> = int n" using assms(2) by (simp add: uint_nat unat_of_nat)
  finally show ?thesis .
qed

lemma tag_alloc64:
  assumes "8 dvd n"
  shows "(ucast (tag n a AND 1) :: 64 word) = (if a then 1 else 0)"
  unfolding tag_def PACK_def
  by (rule codec_alloc[OF of_nat_and7[OF assms(1)]]) simp

lemma tag_alloc:
  assumes "8 dvd n"
  shows "tag n a AND 1 = (if a then 1 else 0)"
proof -
  have "(ucast (ucast (tag n a AND 1) :: 64 word) :: 32 word) = tag n a AND 1"
    by (simp add: ucast_up_ucast_id is_up)
  then show ?thesis by (simp only: tag_alloc64[OF assms]) (simp split: if_splits)
qed

lemma GET_SIZE_tag:
  assumes "m p = tag n a" and "8 dvd n" and "n < 2 ^ 32"
  shows "uint (GET_SIZE m p) = int n" and "(ucast (GET_SIZE m p) :: 64 word) = of_nat n"
    and "GET_SIZE m p = of_nat n"
proof -
  show "uint (GET_SIZE m p) = int n"
    using tag_size[OF assms(2,3), of a] by (simp add: GET_SIZE_def GET_def assms(1))
  then show "GET_SIZE m p = of_nat n"
    by (metis word_of_int_uint of_int_of_nat_eq)
  show "(ucast (GET_SIZE m p) :: 64 word) = of_nat n"
    using tag_size64[OF assms(2,3), of a] by (simp add: GET_SIZE_def GET_def assms(1))
qed

lemma GET_ALLOC_tag:
  assumes "m p = tag n a" and "8 dvd n"
  shows "GET_ALLOC m p = (if a then 1 else 0)"
    and "(ucast (GET_ALLOC m p) :: 64 word) = (if a then 1 else 0)"
  using tag_alloc[OF assms(2), of a] by (simp_all add: GET_ALLOC_def GET_def assms(1))

lemma alloc_flag_neq0 [simp]: "((if a then 1 else 0 :: 64 word) \<noteq> 0) = a"
  by simp

lemma ucast_of_nat32:
  assumes "k < 2 ^ 32"
  shows "(ucast (of_nat k :: 32 word) :: 64 word) = of_nat k"
proof -
  have "unat (of_nat k :: 32 word) = k" using assms by (simp add: unat_of_nat)
  then show ?thesis by (metis of_nat_unat)
qed

lemma coalesce_local:
  assumes ph: "m (bp - int pn - 4) = tag pn pa" and pf: "m (bp - 8) = tag pn pa"
    and bh: "m (bp - 4) = tag n b"
    and nh: "m (bp + int n - 4) = tag nn na"
    and nf: "\<not> na \<Longrightarrow> m (bp + int n + int nn - 8) = tag nn na"
    and sz: "8 \<le> pn" "8 \<le> n" "8 dvd pn" "8 dvd n" "8 dvd nn"
    and bd: "pn < 2 ^ 32" "nn < 2 ^ 32"
    and fit: "(if pa then 0 else pn) + n + (if na then 0 else nn) < 2 ^ 32"
  shows "coalesce bp m =
     (if pa \<and> na then (bp, m)
      else if pa then
        (bp, m(bp - 4 := tag (n + nn) False, bp + int n + int nn - 8 := tag (n + nn) False))
      else if na then
        (bp - int pn, m(bp + int n - 8 := tag (pn + n) False, bp - int pn - 4 := tag (pn + n) False))
      else
        (bp - int pn, m(bp - int pn - 4 := tag (pn + n + nn) False,
                        bp + int n + int nn - 8 := tag (pn + n + nn) False)))"
proof -
  have lt: "pn < 2 ^ 32" "n < 2 ^ 32" "nn < 2 ^ 32"
    using bd fit by (simp_all split: if_splits)
  have d: "8 dvd n + nn" "8 dvd pn + n" "8 dvd pn + n + nn"
    using sz(3-5) by simp_all
  have prev: "PREV_BLKP m bp = bp - int pn"
    unfolding PREV_BLKP_def using GET_SIZE_tag(1)[of m "bp - 8", OF pf sz(3) lt(1)] by simp
  have fprev: "FTRP m (bp - int pn) = bp - 8"
    unfolding FTRP_def HDRP_def using GET_SIZE_tag(1)[of m "bp - int pn - 4", OF ph sz(3) lt(1)] by simp
  have pal: "((ucast (GET_ALLOC m (bp - 8)) :: 64 word) \<noteq> 0) = pa"
    using GET_ALLOC_tag(2)[of m "bp - 8", OF pf sz(3)] by simp
  have nxt: "NEXT_BLKP m bp = bp + int n"
    unfolding NEXT_BLKP_def using GET_SIZE_tag(1)[of m "bp - 4", OF bh sz(4) lt(2)] by simp
  have nal: "((ucast (GET_ALLOC m (bp + int n - 4)) :: 64 word) \<noteq> 0) = na"
    using GET_ALLOC_tag(2)[of m "bp + int n - 4", OF nh sz(5)] by simp
  have szw: "(ucast (GET_SIZE m (bp - 4)) :: 64 word) = of_nat n"
    using GET_SIZE_tag(2)[of m "bp - 4", OF bh sz(4) lt(2)] .
  have nsz: "(ucast (GET_SIZE m (bp + int n - 4)) :: 64 word) = of_nat nn"
    using GET_SIZE_tag(2)[of m "bp + int n - 4", OF nh sz(5) lt(3)] .
  have psz: "(ucast (GET_SIZE m (bp - int pn - 4)) :: 64 word) = of_nat pn"
    using GET_SIZE_tag(2)[of m "bp - int pn - 4", OF ph sz(3) lt(1)] .
  have psz32: "GET_SIZE m (bp - int pn - 4) = of_nat pn"
    using GET_SIZE_tag(3)[of m "bp - int pn - 4", OF ph sz(3) lt(1)] .
  have ftr: "FTRP m bp = bp + int n - 8"
    unfolding FTRP_def HDRP_def using GET_SIZE_tag(1)[of m "bp - 4", OF bh sz(4) lt(2)] by simp
  have PAL: "((ucast (GET_ALLOC m (FTRP m (PREV_BLKP m bp))) :: 64 word) \<noteq> 0) = pa"
    by (simp only: prev fprev pal)
  have NAL: "((ucast (GET_ALLOC m (HDRP (NEXT_BLKP m bp))) :: 64 word) \<noteq> 0) = na"
    by (simp only: nxt HDRP_def nal)
  show ?thesis
  proof (cases pa)
    case pa: True
    show ?thesis
    proof (cases na)
      case True
      with pa show ?thesis
        by (simp add: coalesce_def Let_def PAL NAL)
    next
      case na: False
      have lt4: "n + nn < 2 ^ 32" using fit pa na by simp
      define m1 where "m1 = m(bp - 4 := tag (n + nn) False)"
      define m2 where "m2 = m1(bp + int n + int nn - 8 := tag (n + nn) False)"
      have s: "(ucast (GET_SIZE m (HDRP bp)) :: 64 word)
                + ucast (GET_SIZE m (HDRP (NEXT_BLKP m bp))) = of_nat (n + nn)"
        by (simp add: HDRP_def nxt szw nsz)
      have w1: "PUT (HDRP bp) (PACK (of_nat (n + nn)) 0) m = m1"
        by (simp add: PUT_def tag_def HDRP_def m1_def)
      have f1: "FTRP m1 bp = bp + int n + int nn - 8"
        unfolding FTRP_def HDRP_def
        using GET_SIZE_tag(1)[of m1 "bp - 4" "n + nn" False, OF _ d(1) lt4]
        by (simp add: m1_def)
      have w2: "PUT (FTRP m1 bp) (PACK (of_nat (n + nn)) 0) m1 = m2"
        by (simp add: PUT_def tag_def f1 m2_def)
      show ?thesis using pa na
        by (simp add: coalesce_def Let_def PAL NAL s w1 w2 del: of_nat_add) (simp add: m2_def m1_def)
    qed
  next
    case pa: False
    show ?thesis
    proof (cases na)
      case na: True
      define m1 where "m1 = m(bp + int n - 8 := tag (pn + n) False)"
      define m2 where "m2 = m1(bp - int pn - 4 := tag (pn + n) False)"
      have s: "(ucast (GET_SIZE m (HDRP bp)) :: 64 word)
                + ucast (GET_SIZE m (HDRP (PREV_BLKP m bp))) = of_nat (pn + n)"
        by (simp add: HDRP_def prev szw psz)
      have w1: "PUT (FTRP m bp) (PACK (of_nat (pn + n)) 0) m = m1"
        by (simp add: PUT_def tag_def ftr m1_def)
      have p1: "PREV_BLKP m1 bp = bp - int pn"
        unfolding PREV_BLKP_def
        using GET_SIZE_tag(1)[of m1 "bp - 8" pn pa, OF _ sz(3) lt(1)] pf sz(2)
        by (simp add: m1_def)
      have w2: "PUT (HDRP (PREV_BLKP m1 bp)) (PACK (of_nat (pn + n)) 0) m1 = m2"
        by (simp add: PUT_def tag_def p1 HDRP_def m2_def)
      have p2: "PREV_BLKP m2 bp = bp - int pn"
        unfolding PREV_BLKP_def
        using GET_SIZE_tag(1)[of m2 "bp - 8" pn pa, OF _ sz(3) lt(1)] pf sz(1,2)
        by (simp add: m1_def m2_def)
      show ?thesis using pa na
        by (simp add: coalesce_def Let_def PAL NAL s w1 w2 p2 del: of_nat_add) (simp add: m2_def m1_def)
    next
      case na: False
      have nfs: "GET_SIZE m (bp + int n + int nn - 8) = of_nat nn"
        using GET_SIZE_tag(3)[of m "bp + int n + int nn - 8", OF nf[OF na] sz(5) lt(3)] .
      have fn: "FTRP m (bp + int n) = bp + int n + int nn - 8"
        unfolding FTRP_def HDRP_def
        using GET_SIZE_tag(1)[of m "bp + int n - 4", OF nh sz(5) lt(3)] by simp
      have s32: "(ucast (of_nat pn + of_nat nn :: 32 word) :: 64 word) = of_nat (pn + nn)"
      proof -
        have "(of_nat pn + of_nat nn :: 32 word) = of_nat (pn + nn)" by simp
        moreover have "(ucast (of_nat (pn + nn) :: 32 word) :: 64 word) = of_nat (pn + nn)"
          using fit pa na by (intro ucast_of_nat32) simp
        ultimately show ?thesis by (simp only:)
      qed
      define m1 where "m1 = m(bp - int pn - 4 := tag (pn + n + nn) False)"
      define m2 where "m2 = m1(bp + int n + int nn - 8 := tag (pn + n + nn) False)"
      have s: "(ucast (GET_SIZE m (HDRP bp)) :: 64 word)
                + ucast (GET_SIZE m (HDRP (PREV_BLKP m bp))
                         + GET_SIZE m (FTRP m (NEXT_BLKP m bp))) = of_nat (pn + n + nn)"
        by (simp only: HDRP_def prev nxt fn szw psz32 nfs s32) simp
      have w1: "PUT (HDRP (PREV_BLKP m bp)) (PACK (of_nat (pn + n + nn)) 0) m = m1"
        by (simp add: PUT_def tag_def prev HDRP_def m1_def)
      have n1: "NEXT_BLKP m1 bp = bp + int n"
        unfolding NEXT_BLKP_def
        using GET_SIZE_tag(1)[of m1 "bp - 4" n b, OF _ sz(4) lt(2)] bh sz(1)
        by (simp add: m1_def)
      have f1: "FTRP m1 (bp + int n) = bp + int n + int nn - 8"
        unfolding FTRP_def HDRP_def
        using GET_SIZE_tag(1)[of m1 "bp + int n - 4" nn na, OF _ sz(5) lt(3)] nh sz(1,2)
        by (simp add: m1_def)
      have w2: "PUT (FTRP m1 (NEXT_BLKP m1 bp)) (PACK (of_nat (pn + n + nn)) 0) m1 = m2"
        by (simp add: PUT_def tag_def n1 f1 m2_def)
      have p2: "PREV_BLKP m2 bp = bp - int pn"
        unfolding PREV_BLKP_def
        using GET_SIZE_tag(1)[of m2 "bp - 8" pn pa, OF _ sz(3) lt(1)] pf sz(1,2)
        by (simp add: m1_def m2_def)
      show ?thesis using pa na
        by (simp add: coalesce_def Let_def PAL NAL s w1 w2 p2 del: of_nat_add) (simp add: m2_def m1_def)
    qed
  qed
qed

lemma total_append [simp]: "total (xs @ ys) = total xs + total ys"
  by (induction xs) auto

lemma blocks_append [simp]:
  "blocks m bp (xs @ ys) = (blocks m bp xs \<and> blocks m (bp + int (total xs)) ys)"
  by (induction xs arbitrary: bp) (auto simp: algebra_simps)

lemma blocks_frame:
  assumes "blocks m bp bs" and "\<And>a. bp - 4 \<le> a \<Longrightarrow> a < bp + int (total bs) - 4 \<Longrightarrow> m' a = m a"
  shows "blocks m' bp bs"
  using assms
proof (induction bs arbitrary: bp)
  case Nil
  then show ?case by simp
next
  case (Cons b bs)
  obtain n a where b: "b = (n, a)" by (cases b)
  from Cons.prems(1) have n: "8 \<le> n" and rest: "blocks m (bp + int n) bs"
    and h: "m (bp - 4) = tag n a" and f: "m (bp + int n - 8) = tag n a"
    by (simp_all add: b)
  have "blocks m' (bp + int n) bs"
    by (rule Cons.IH[OF rest]) (use n in \<open>auto simp: b intro!: Cons.prems(2)\<close>)
  moreover have "m' (bp - 4) = tag n a" using Cons.prems(2)[of "bp - 4"] h n by (simp add: b)
  moreover have "m' (bp + int n - 8) = tag n a"
    using Cons.prems(2)[of "bp + int n - 8"] f n by (simp add: b)
  ultimately show ?case using Cons.prems(1) by (simp add: b)
qed

lemma blocks_upd:
  assumes "q < bp - 4 \<or> bp + int (total bs) - 4 \<le> q"
  shows "blocks (m(q := v)) bp bs = blocks m bp bs"
proof
  assume "blocks (m(q := v)) bp bs"
  then show "blocks m bp bs" by (rule blocks_frame) (use assms in auto)
next
  assume "blocks m bp bs"
  then show "blocks (m(q := v)) bp bs" by (rule blocks_frame) (use assms in auto)
qed

lemma block_addrs_append [simp]:
  "block_addrs bp (xs @ ys) = block_addrs bp xs \<union> block_addrs (bp + int (total xs)) ys"
  by (induction xs arbitrary: bp) (auto simp: algebra_simps)

lemma block_addrs_split:
  assumes "p \<in> block_addrs bp bs"
  shows "\<exists>xs n ys. bs = xs @ (n, True) # ys \<and> p = bp + int (total xs)"
  using assms
proof (induction bs arbitrary: bp)
  case Nil
  then show ?case by simp
next
  case (Cons b bs)
  obtain n a where b: "b = (n, a)" by (cases b)
  show ?case
  proof (cases "a \<and> p = bp")
    case True
    then have "b # bs = [] @ (n, True) # bs \<and> p = bp + int (total [])" by (simp add: b)
    then show ?thesis by blast
  next
    case False
    with Cons.prems have "p \<in> block_addrs (bp + int n) bs" by (auto simp: b split: if_splits)
    from Cons.IH[OF this] obtain xs k ys where
      "bs = xs @ (k, True) # ys" "p = bp + int n + int (total xs)" by blast
    then have "b # bs = (b # xs) @ (k, True) # ys \<and> p = bp + int (total (b # xs))"
      by (simp add: b)
    then show ?thesis by blast
  qed
qed

lemma no_adjacent_free_Cons:
  "no_adjacent_free (x # ys) = (no_adjacent_free ys \<and> (ys = [] \<or> snd x \<or> snd (hd ys)))"
  by (cases ys) auto

lemma no_adjacent_free_append:
  "no_adjacent_free (xs @ ys) =
     (no_adjacent_free xs \<and> no_adjacent_free ys \<and> (xs = [] \<or> ys = [] \<or> snd (last xs) \<or> snd (hd ys)))"
proof (induction xs)
  case Nil
  then show ?case by simp
next
  case (Cons x xs)
  show ?case
    using Cons.IH by (cases xs) (auto simp: no_adjacent_free_Cons simp del: no_adjacent_free.simps(1))
qed

lemma total_coalesced: "total (coalesced xs n ys) = total xs + n + total ys"
proof -
  have a: "total (butlast xs) + fst (last xs) = total xs" if "xs \<noteq> []"
    using that by (induction xs rule: rev_induct) (auto simp: case_prod_beta)
  have b: "fst (hd ys) + total (tl ys) = total ys" if "ys \<noteq> []"
    using that by (cases ys) auto
  show ?thesis using a b by (auto simp: coalesced_def Let_def)
qed

lemma coalesce_heap:
  assumes B: "blocks m hp ((8, True) # xs @ (n, False) # ys)"
      and E: "m (hp + 8 + int (total xs) + int n + int (total ys) - 4) = tag 0 True"
      and T: "8 + total xs + n + total ys < 2 ^ 32"
  shows "\<exists>m'. coalesce (hp + 8 + int (total xs)) m = (coalesced_at (hp + 8 + int (total xs)) xs, m')
          \<and> blocks m' hp ((8, True) # coalesced xs n ys)
          \<and> m' (hp + 8 + int (total xs) + int n + int (total ys) - 4) = tag 0 True"
proof -
  define bp where "bp = hp + 8 + int (total xs)"
  obtain zs pn pa where snoc: "(8, True) # xs = zs @ [(pn, pa)]"
    by (metis rev_exhaust list.distinct(1) surj_pair)
  have zs: "(xs = [] \<and> zs = [] \<and> pn = 8 \<and> pa) \<or> (\<exists>xs'. xs = xs' @ [(pn, pa)] \<and> zs = (8, True) # xs')"
    using snoc by (cases xs rule: rev_cases) auto
  have tz: "8 + total xs = total zs + pn"
    using arg_cong[OF snoc, of total] by simp
  have B': "blocks m hp (zs @ (pn, pa) # (n, False) # ys)"
    using B snoc by (metis append.assoc append_Cons append_Nil)
  obtain nn na ys' where nx: "(ys = [] \<and> nn = 0 \<and> na \<and> ys' = []) \<or> ys = (nn, na) # ys'"
    by (cases ys) auto
  have tn: "total ys = nn + total ys'" using nx by auto
  have hpz: "hp = bp - int pn - int (total zs)" using tz by (simp add: bp_def)
  from B' have
        ph: "m (bp - int pn - 4) = tag pn pa" and pf: "m (bp - 8) = tag pn pa"
    and bh: "m (bp - 4) = tag n False" and bf: "m (bp + int n - 8) = tag n False"
    and s: "8 \<le> pn" "8 \<le> n" "8 dvd pn" "8 dvd n"
    and Bz: "blocks m hp zs" and By: "blocks m (bp + int n) ys"
    unfolding hpz by (simp_all add: algebra_simps)
  have nh: "m (bp + int n - 4) = tag nn na" and nd: "8 dvd nn"
    and nf: "\<not> na \<Longrightarrow> m (bp + int n + int nn - 8) = tag nn na"
    and n8: "\<not> na \<Longrightarrow> 8 \<le> nn" and By': "blocks m (bp + int n + int nn) ys'"
    using nx By E[folded bp_def] by (auto simp: algebra_simps)
  have sm: "pn + n + nn < 2 ^ 32" using T tz tn by simp
  then have bd: "pn < 2 ^ 32" "nn < 2 ^ 32"
    and fit: "(if pa then 0 else pn) + n + (if na then 0 else nn) < 2 ^ 32"
    by simp_all
  note cl = coalesce_local[OF ph pf bh nh nf s nd bd fit]
  have R: "coalesced_at bp xs = (if pa then bp else bp - int pn)"
    using zs by (auto simp: coalesced_at_def)
  have L: "(8, True) # coalesced xs n ys =
       zs @ (if pa \<and> na then (pn, pa) # (n, False) # ys
             else if pa then (pn, pa) # (n + nn, False) # ys'
             else if na then (pn + n, False) # ys
             else (pn + n + nn, False) # ys')"
    using zs nx by (auto simp: coalesced_def)
  have lt: "pn + n < 2 ^ 32" "n + nn < 2 ^ 32" using sm by simp_all
  have Ebp: "m (bp + int n + int (total ys) - 4) = tag 0 True"
    using E by (simp add: bp_def algebra_simps)
  have tys: "0 \<le> int (total ys')" by simp
  show ?thesis
    unfolding bp_def[symmetric] unfolding L R
    using cl Bz By By' ph pf bh bf nh nf s nd n8 sm lt Ebp tn
    by (auto simp: hpz blocks_upd algebra_simps)
qed

lemma place_local:
  fixes r :: "64 word"
  assumes bh: "m (bp - 4) = tag n b" and n: "8 dvd n" "n < 2 ^ 32"
    and k: "unat r = k" "k \<le> n"
    and sp: "16 \<le> n - k \<Longrightarrow> 8 dvd k \<and> 0 < k"
  shows "place bp r m =
     (if 16 \<le> n - k then
        m(bp - 4 := tag k True, bp + int k - 8 := tag k True,
          bp + int k - 4 := tag (n - k) False, bp + int n - 8 := tag (n - k) False)
      else m(bp - 4 := tag n True, bp + int n - 8 := tag n True))"
proof -
  have r: "r = of_nat k" using k(1) by (metis of_nat_unat ucast_id)
  have k32: "k < 2 ^ 32" "n - k < 2 ^ 32" using k(2) n(2) by simp_all
  have fs: "(ucast (GET_SIZE m (HDRP bp)) :: 64 word) = of_nat n"
    using GET_SIZE_tag(2)[of m "bp - 4", OF bh n] by (simp add: HDRP_def)
  have diff: "(of_nat n :: 64 word) - of_nat k = of_nat (n - k)"
    using k(2) by simp
  have cmp: "((16 :: 64 word) \<le> of_nat (n - k)) = (16 \<le> n - k)"
    using k32(2) by (simp add: word_le_nat_alt unat_of_nat)
  show ?thesis
  proof (cases "16 \<le> n - k")
    case True
    from sp[OF True] have k8: "8 dvd k" "8 \<le> k" by auto
    define m1 where "m1 = m(bp - 4 := tag k True)"
    define m2 where "m2 = m1(bp + int k - 8 := tag k True)"
    define m3 where "m3 = m2(bp + int k - 4 := tag (n - k) False)"
    define m4 where "m4 = m3(bp + int n - 8 := tag (n - k) False)"
    have w1: "PUT (HDRP bp) (PACK r 1) m = m1"
      by (simp add: PUT_def tag_def HDRP_def m1_def r)
    have f1: "FTRP m1 bp = bp + int k - 8"
      unfolding FTRP_def HDRP_def
      using GET_SIZE_tag(1)[of m1 "bp - 4" k True, OF _ k8(1) k32(1)] by (simp add: m1_def)
    have w2: "PUT (FTRP m1 bp) (PACK r 1) m1 = m2"
      by (simp add: PUT_def tag_def f1 m2_def r)
    have n2: "NEXT_BLKP m2 bp = bp + int k"
      unfolding NEXT_BLKP_def
      using GET_SIZE_tag(1)[of m2 "bp - 4" k True, OF _ k8(1) k32(1)] k8(2)
      by (simp add: m1_def m2_def)
    have w3: "PUT (HDRP (bp + int k)) (PACK (of_nat (n - k)) 0) m2 = m3"
      by (simp add: PUT_def tag_def HDRP_def m3_def del: of_nat_diff)
    have f3: "FTRP m3 (bp + int k) = bp + int n - 8"
      unfolding FTRP_def HDRP_def
      using GET_SIZE_tag(1)[of m3 "bp + int k - 4" "n - k" False, OF _ _ k32(2)] k8(1) k(2) n(1)
      by (simp add: m3_def of_nat_diff)
    have w4: "PUT (bp + int n - 8) (PACK (of_nat (n - k)) 0) m3 = m4"
      by (simp add: PUT_def tag_def m4_def del: of_nat_diff)
    show ?thesis using True
      by (simp add: place_def Let_def fs diff[folded r] cmp w1 w2 n2 w3 f3 w4 del: of_nat_diff) 
         (simp add: m4_def m3_def m2_def m1_def)
  next
    case False
    define m1 where "m1 = m(bp - 4 := tag n True)"
    have w1: "PUT (HDRP bp) (PACK (of_nat n) 1) m = m1"
      by (simp add: PUT_def tag_def HDRP_def m1_def)
    have f1: "FTRP m1 bp = bp + int n - 8"
      unfolding FTRP_def HDRP_def
      using GET_SIZE_tag(1)[of m1 "bp - 4" n True, OF _ n] by (simp add: m1_def)
    have w2: "PUT (bp + int n - 8) (PACK (of_nat n) 1) m1 = m1(bp + int n - 8 := tag n True)"
      by (simp add: PUT_def tag_def)
    show ?thesis using False
      by (simp add: place_def Let_def fs diff[folded r] cmp w1 f1 w2 del: of_nat_diff) 
         (simp add: m1_def)
  qed
qed

lemma find_fit_loop_blocks:
  assumes "blocks m bp bs" and "m (bp + int (total bs) - 4) = tag 0 True"
  shows "find_fit_loop m sz bp = Some (first_fit bp bs (unat sz))"
  using assms
proof (induction bs arbitrary: bp)
  case Nil
  then have "GET_SIZE m (HDRP bp) = 0"
    using GET_SIZE_tag(3)[of m "bp - 4" 0 True] by (simp add: HDRP_def)
  then show ?case by (subst find_fit_loop.simps) simp
next
  case (Cons b bs)
  obtain n a where b: "b = (n, a)" by (cases b)
  from Cons.prems have n: "8 \<le> n" "8 dvd n" "n < 2 ^ 32" and h: "m (bp - 4) = tag n a"
    and rest: "blocks m (bp + int n) bs"
    and ep: "m (bp + int n + int (total bs) - 4) = tag 0 True"
    by (simp_all add: b algebra_simps)
  have gs: "GET_SIZE m (HDRP bp) = of_nat n"
    using GET_SIZE_tag(3)[of m "bp - 4", OF h n(2,3)] by (simp add: HDRP_def)
  have pos: "(0 :: 32 word) < of_nat n"
    using n(1,3) by (simp add: word_less_nat_alt unat_of_nat)
  have gs64: "(ucast (GET_SIZE m (HDRP bp)) :: 64 word) = of_nat n"
    using GET_SIZE_tag(2)[of m "bp - 4", OF h n(2,3)] by (simp add: HDRP_def)
  have cmp: "(sz \<le> (of_nat n :: 64 word)) = (unat sz \<le> n)"
    using n(3) by (simp add: word_le_nat_alt unat_of_nat)
  have al: "(GET_ALLOC m (HDRP bp) \<noteq> 0) = a"
    using GET_ALLOC_tag(1)[of m "bp - 4", OF h n(2)] by (simp add: HDRP_def)
  have nx: "NEXT_BLKP m bp = bp + int n"
    unfolding NEXT_BLKP_def using GET_SIZE_tag(1)[of m "bp - 4", OF h n(2,3)] by simp
  have ih: "find_fit_loop m sz (bp + int n) = Some (first_fit (bp + int n) bs (unat sz))"
    by (rule Cons.IH[OF rest ep])
  show ?case
    by (subst find_fit_loop.simps) (simp add: b gs64 cmp al nx ih pos[folded gs])
qed

lemma first_fit_None:
  "first_fit bp bs k = None \<longleftrightarrow> (\<forall>(n, a) \<in> set bs. a \<or> n < k)"
  by (induction bs arbitrary: bp) (auto split: if_splits)

lemma first_fit_Some:
  assumes "first_fit bp bs k = Some p"
  shows "\<exists>xs n ys. bs = xs @ (n, False) # ys \<and> p = bp + int (total xs) \<and> k \<le> n
           \<and> (\<forall>(n', a') \<in> set xs. a' \<or> n' < k)"
  using assms
proof (induction bs arbitrary: bp)
  case Nil
  then show ?case by simp
next
  case (Cons b bs)
  obtain n a where b: "b = (n, a)" by (cases b)
  show ?case
  proof (cases "\<not> a \<and> k \<le> n")
    case True
    with Cons.prems have "b # bs = [] @ (n, False) # bs \<and> p = bp + int (total []) \<and> k \<le> n
        \<and> (\<forall>(n', a') \<in> set []. a' \<or> n' < k)"
      by (simp add: b)
    then show ?thesis by blast
  next
    case False
    with Cons.prems have "first_fit (bp + int n) bs k = Some p" by (simp add: b)
    from Cons.IH[OF this] obtain xs n' ys where
      "bs = xs @ (n', False) # ys" "p = bp + int n + int (total xs)" "k \<le> n'"
      "\<forall>(n', a') \<in> set xs. a' \<or> n' < k" by blast
    with False have "b # bs = (b # xs) @ (n', False) # ys \<and> p = bp + int (total (b # xs)) \<and> k \<le> n'
        \<and> (\<forall>(n', a') \<in> set (b # xs). a' \<or> n' < k)"
      by (auto simp: b)
    then show ?thesis by blast
  qed
qed

lemma unat_add64: "unat a + unat b < 2 ^ 64 \<Longrightarrow> unat (a + b :: 64 word) = unat a + unat b"
  using unat_add_lem[of a b] by simp

lemma unat_mult64: "unat a * unat b < 2 ^ 64 \<Longrightarrow> unat (a * b :: 64 word) = unat a * unat b"
  using unat_mult_lem[of a b] by simp

lemma new_size_unat:
  assumes "0 < unat n" and "unat n \<le> 2 ^ 63 - 24"
  shows "unat (new_size n) = adjusted (unat n)"
proof (cases "n \<le> 8")
  case True
  then have "unat n \<le> 8" by (simp add: word_le_nat_alt)
  then have "adjusted (unat n) = 16" using assms(1) unfolding adjusted_def by arith
  then show ?thesis using True by (simp add: new_size_def)
next
  case False
  then have g: "8 < unat n" by (simp add: word_le_nat_alt)
  define x where "x = n + 15"
  have e: "8 + n + 8 - 1 = x" by (simp add: x_def)
  have a: "unat x = unat n + 15"
    unfolding x_def using assms(2) by (subst unat_add64) simp_all
  have d: "unat (x div 8) = unat x div 8"
    by (simp add: unat_div)
  have m: "unat (x div 8 * 8) = unat x div 8 * 8"
    using assms(2) by (subst unat_mult64) (simp_all add: d a)
  have "adjusted (unat n) = (unat n + 15) div 8 * 8"
    using g unfolding adjusted_def by arith
  then show ?thesis using False by (simp only: new_size_def e m a if_False)
qed

lemma adjusted_props:
  shows "8 dvd adjusted n" and "16 \<le> adjusted n" and "n + 8 \<le> adjusted n"
    and "adjusted n \<le> n + 15 \<or> adjusted n = 16"
  unfolding adjusted_def by arith+

lemma extend_size:
  assumes "unat nsz = k" and "8 dvd k" and "k < 2 ^ 63 - 8"
  shows "(let w = extend_words nsz in if w mod 2 \<noteq> 0 then (w + 1) * 4 else w * 4)
           = (of_nat (extension k) :: 64 word)"
proof (cases "nsz > 4096")
  case False
  then have "\<not> k > 4096" using assms(1) by (simp add: word_less_nat_alt)
  then show ?thesis using False by (simp add: extend_words_def extension_def)
next
  case True
  then have g: "k > 4096" using assms(1) by (simp add: word_less_nat_alt)
  define q where "q = nsz div 4"
  define w where "w = q + 1"
  define w1 where "w1 = w + 1"
  have d: "unat q = k div 4" by (simp add: q_def unat_div assms(1))
  have uw: "unat w = k div 4 + 1"
    unfolding w_def using assms(3) by (subst unat_add64) (simp_all add: d)
  have odd: "unat (w mod 2) = 1"
    using assms(2) by (simp add: unat_mod uw) presburger
  have u1: "unat w1 = k div 4 + 2"
    unfolding w1_def using assms(3) by (subst unat_add64) (simp_all add: uw)
  have u4: "unat (w1 * 4) = k + 8"
  proof -
    have "(k div 4 + 2) * 4 = k + 8" using assms(2) by presburger
    then show ?thesis using assms(3) by (subst unat_mult64) (simp_all add: u1)
  qed
  have "w1 * 4 = (of_nat (k + 8) :: 64 word)"
    using u4 by (metis of_nat_unat ucast_id)
  moreover have "w mod 2 \<noteq> 0"
  proof
    assume "w mod 2 = 0"
    then have "unat (w mod 2) = 0" by (simp only: unat_0)
    with odd show False by simp
  qed
  ultimately show ?thesis using True g
    by (simp add: extend_words_def extension_def w_def w1_def q_def Let_def)
qed

lemma heap_okD:
  assumes "heap_ok s bs"
  shows "blocks (mem s) (heap_ptr s) ((8, True) # bs)"
    and "brk s = heap_ptr s + 8 + int (total bs)"
    and "mem s (brk s - 4) = tag 0 True"
    and "no_adjacent_free bs"
    and "brk s \<le> brk_max s"
    and "brk_max s - heap_ptr s < 2 ^ 32"
  using assms unfolding heap_ok_def by blast+

lemma total_placed: "k \<le> n \<Longrightarrow> total (placed n k) = n"
  by (simp add: placed_def)

lemma place_ok:
  assumes ok: "heap_ok s (xs @ (n, False) # ys)"
    and p: "p = heap_ptr s + 8 + int (total xs)"
    and k: "unat r = k" "8 dvd k" "8 \<le> k" "k \<le> n"
  shows "heap_ok (s\<lparr>mem := place p r (mem s)\<rparr>) (xs @ placed n k @ ys)"
proof -
  define m where "m = mem s"
  define hp where "hp = heap_ptr s"
  have hp: "hp = p - 8 - int (total xs)" using p by (simp add: hp_def)
  note D = heap_okD[OF ok, folded m_def hp_def]
  have B: "blocks m hp ((8, True) # xs @ (n, False) # ys)" using D(1) .
  have br: "brk s = p + int n + int (total ys)" using D(2) by (simp add: hp)
  have ep: "m (p + int n + int (total ys) - 4) = tag 0 True" using D(3) by (simp add: br)
  note naf = D(4) and rest = D(5-6)
  from B have bh: "m (p - 4) = tag n False" and bf: "m (p + int n - 8) = tag n False"
    and n: "8 \<le> n" "8 dvd n" "n < 2 ^ 32"
    and Bx: "blocks m (p - 8 - int (total xs)) ((8, True) # xs)" and By: "blocks m (p + int n) ys"
    unfolding hp by (simp_all add: algebra_simps)
  have "8 dvd k \<and> 0 < k" using k(2,3) by simp
  note pl = place_local[where m=m and bp=p, OF bh n(2,3) k(1,4) this]
  have d: "8 dvd n - k" using n(2) k(2,4) by (simp add: dvd_diff_nat)
  have "blocks (place p r m) hp ((8, True) # xs @ placed n k @ ys)"
    unfolding hp pl using Bx By n k d bh bf
    by (auto simp: placed_def blocks_upd algebra_simps of_nat_diff)
  moreover have "place p r m (brk s - 4) = tag 0 True"
    unfolding pl br using ep n k by auto
  moreover have "no_adjacent_free (xs @ placed n k @ ys)"
    using naf by (auto simp: no_adjacent_free_append placed_def no_adjacent_free_Cons simp del: no_adjacent_free.simps(1))
  ultimately show ?thesis using D(2) rest k(4)
    by (simp add: heap_ok_def total_placed flip: m_def hp_def)
qed

lemma block_addrs_placed:
  "block_addrs q (xs @ placed n k @ ys) = insert (q + int (total xs)) (block_addrs q (xs @ (n, False) # ys))"
  if "k \<le> n" "8 \<le> k"
  using that by (auto simp: placed_def of_nat_diff)

lemma sint_of_nat64:
  assumes "k < 2 ^ 63"
  shows "sint (of_nat k :: 64 word) = int k"
proof -
  have "uint (of_nat k :: 64 word) = int k"
    using assms by (simp add: uint_nat unat_of_nat)
  then show ?thesis using assms
    by (simp add: sint_uint signed_take_bit_int_eq_self)
qed

lemma naf_coalesced:
  assumes "no_adjacent_free xs" and "no_adjacent_free ys"
  shows "no_adjacent_free (coalesced xs n ys)"
proof -
  have x: "xs = [] \<or> (\<exists>xs' pn pa. xs = xs' @ [(pn, pa)])"
    by (cases xs rule: rev_cases) auto
  have y: "ys = [] \<or> (\<exists>nn na ys'. ys = (nn, na) # ys')"
    by (cases ys) auto
  show ?thesis
    using x y assms
    by (auto simp: coalesced_def Let_def no_adjacent_free_append no_adjacent_free_Cons
             simp del: no_adjacent_free.simps(1))
qed

lemma block_addrs_coalesced:
  shows "block_addrs q (coalesced xs n ys) = block_addrs q xs \<union> block_addrs (q + int (total xs) + int n) ys"
proof -
  have x: "xs = [] \<or> (\<exists>xs' pn pa. xs = xs' @ [(pn, pa)])"
    by (cases xs rule: rev_cases) auto
  have y: "ys = [] \<or> (\<exists>nn na ys'. ys = (nn, na) # ys')"
    by (cases ys) auto
  show ?thesis
    using x y by (auto simp: coalesced_def Let_def algebra_simps)
qed

lemma free_ok:
  assumes ok: "heap_ok s (xs @ (n, True) # ys)"
    and p: "p = heap_ptr s + 8 + int (total xs)"
  shows "heap_ok (mm_free p s) (coalesced xs n ys)"
proof -
  define m where "m = mem s"
  define hp where "hp = heap_ptr s"
  have hp: "hp = p - 8 - int (total xs)" using p by (simp add: hp_def)
  note D = heap_okD[OF ok, folded m_def hp_def]
  have B: "blocks m hp ((8, True) # xs @ (n, True) # ys)" using D(1) .
  have br: "brk s = p + int n + int (total ys)" using D(2) by (simp add: hp)
  have ep: "m (p + int n + int (total ys) - 4) = tag 0 True" using D(3) by (simp add: br)
  from B have bh: "m (p - 4) = tag n True" 
    and n: "8 \<le> n" "8 dvd n" "n < 2 ^ 32"
    and Bx: "blocks m (p - 8 - int (total xs)) ((8, True) # xs)" and By: "blocks m (p + int n) ys"
    unfolding hp by (simp_all add: algebra_simps)
  define m1 where "m1 = m(p - 4 := tag n False)"
  define m2 where "m2 = m1(p + int n - 8 := tag n False)"
  have sz: "(ucast (GET_SIZE m (HDRP p)) :: 64 word) = of_nat n"
    using GET_SIZE_tag(2)[of m "p - 4", OF bh n(2,3)] by (simp add: HDRP_def)
  have w1: "PUT (HDRP p) (PACK (of_nat n) 0) m = m1"
    by (simp add: PUT_def tag_def HDRP_def m1_def)
  have f1: "FTRP m1 p = p + int n - 8"
    unfolding FTRP_def HDRP_def
    using GET_SIZE_tag(1)[of m1 "p - 4" n False, OF _ n(2,3)] by (simp add: m1_def)
  have w2: "PUT (p + int n - 8) (PACK (of_nat n) 0) m1 = m2"
    by (simp add: PUT_def tag_def m2_def)
  have mf: "mm_free p s = s\<lparr>mem := snd (coalesce p m2)\<rparr>"
    by (simp add: mm_free_def Let_def sz w1 f1 w2 flip: m_def)
  have B2: "blocks m2 hp ((8, True) # xs @ (n, False) # ys)"
    unfolding hp m2_def m1_def using Bx By n
    by (auto simp: blocks_upd algebra_simps)
  have E2: "m2 (hp + 8 + int (total xs) + int n + int (total ys) - 4) = tag 0 True"
    unfolding m2_def m1_def hp using ep n by auto
  have T: "8 + total xs + n + total ys < 2 ^ 32"
    using D(2,5,6) by simp
  from coalesce_heap[OF B2 E2 T] obtain m' where
    c: "coalesce (hp + 8 + int (total xs)) m2 = (coalesced_at (hp + 8 + int (total xs)) xs, m')"
    and B': "blocks m' hp ((8, True) # coalesced xs n ys)"
    and E': "m' (hp + 8 + int (total xs) + int n + int (total ys) - 4) = tag 0 True"
    by blast
  have pp: "hp + 8 + int (total xs) = p" by (simp add: hp)
  have naf: "no_adjacent_free (coalesced xs n ys)"
    using D(4) by (intro naf_coalesced) (auto simp: no_adjacent_free_append no_adjacent_free_Cons simp del: no_adjacent_free.simps(1))
  show ?thesis
    unfolding mf heap_ok_def using B' E' naf D(2,5,6) c[unfolded pp]
    by (simp add: total_coalesced algebra_simps flip: hp_def)
qed

lemma extend_heap_fail:
  assumes sz: "(if w mod 2 \<noteq> 0 then (w + 1) * 4 else w * 4) = (of_nat k :: 64 word)"
    and k: "k < 2 ^ 63" and "\<not> brk s + int k \<le> brk_max s"
  shows "extend_heap w s = (None, s)"
  unfolding extend_heap_def sz
  using assms(3) by (simp add: sbrk_def Let_def sint_of_nat64[OF k])

lemma extend_ok:
  assumes ok: "heap_ok s bs"
    and sz: "(if w mod 2 \<noteq> 0 then (w + 1) * 4 else w * 4) = (of_nat k :: 64 word)"
    and k: "8 dvd k" "8 \<le> k" "k < 2 ^ 63"
    and fits: "brk s + int k \<le> brk_max s"
  shows "\<exists>s'. extend_heap w s = (Some (coalesced_at (brk s) bs), s')
           \<and> heap_ok s' (coalesced bs k [])
           \<and> heap_ptr s' = heap_ptr s \<and> brk s' = brk s + int k \<and> brk_max s' = brk_max s"
proof -
  define m where "m = mem s"
  define hp where "hp = heap_ptr s"
  define bp where "bp = brk s"
  note D = heap_okD[OF ok, folded m_def hp_def bp_def]
  have hp: "hp = bp - 8 - int (total bs)" using D(2) by simp
  have k32: "k < 2 ^ 32" using fits D(2,6) by (simp add: bp_def)
  define s1 where "s1 = s\<lparr>brk := bp + int k\<rparr>"
  have sb: "sbrk (of_nat k) s = (Some bp, s1)"
    using fits by (simp add: sbrk_def Let_def sint_of_nat64[OF k(3)] s1_def bp_def)
  define m1 where "m1 = m(bp - 4 := tag k False)"
  define m2 where "m2 = m1(bp + int k - 8 := tag k False)"
  define m3 where "m3 = m2(bp + int k - 4 := tag 0 True)"
  have w1: "PUT (HDRP bp) (PACK (of_nat k) 0) (mem s1) = m1"
    by (simp add: PUT_def tag_def HDRP_def m1_def s1_def m_def)
  have f1: "FTRP m1 bp = bp + int k - 8"
    unfolding FTRP_def HDRP_def
    using GET_SIZE_tag(1)[of m1 "bp - 4" k False, OF _ k(1) k32] by (simp add: m1_def)
  have w2: "PUT (bp + int k - 8) (PACK (of_nat k) 0) m1 = m2"
    by (simp add: PUT_def tag_def m2_def)
  have n2: "NEXT_BLKP m2 bp = bp + int k"
    unfolding NEXT_BLKP_def
    using GET_SIZE_tag(1)[of m2 "bp - 4" k False, OF _ k(1) k32] k(2)
    by (simp add: m1_def m2_def)
  have w3: "PUT (HDRP (bp + int k)) (PACK 0 1) m2 = m3"
    by (simp add: PUT_def tag_def HDRP_def m3_def)
  have B3: "blocks m3 hp ((8, True) # bs @ (k, False) # [])"
    unfolding hp m3_def m2_def m1_def using D(1)[unfolded hp] k k32
    by (auto simp: blocks_upd algebra_simps)
  have E3: "m3 (hp + 8 + int (total bs) + int k + int (total []) - 4) = tag 0 True"
    by (simp add: hp m3_def)
  have T: "8 + total bs + k + total [] < 2 ^ 32"
    using D(2,6) fits by (simp add: bp_def)
  from coalesce_heap[OF B3 E3 T] obtain m' where
    c: "coalesce (hp + 8 + int (total bs)) m3 = (coalesced_at (hp + 8 + int (total bs)) bs, m')"
    and B': "blocks m' hp ((8, True) # coalesced bs k [])"
    and E': "m' (hp + 8 + int (total bs) + int k + int (total []) - 4) = tag 0 True"
    by blast
  have pp: "hp + 8 + int (total bs) = bp" by (simp add: hp)
  have naf: "no_adjacent_free (coalesced bs k [])"
    using D(4) by (intro naf_coalesced) auto
  have ex: "extend_heap w s = (Some (coalesced_at bp bs), s1\<lparr>mem := m'\<rparr>)"
    unfolding extend_heap_def sz
    by (simp add: sb Let_def w1 f1 w2 n2 w3 c[unfolded pp])
  have "heap_ok (s1\<lparr>mem := m'\<rparr>) (coalesced bs k [])"
    unfolding heap_ok_def using B' E' naf D(6) fits
    by (simp add: s1_def total_coalesced hp algebra_simps flip: hp_def bp_def)
  then show ?thesis using ex by (simp add: s1_def flip: bp_def)
qed

lemma tag_numerals:
  "ucast (PACK 8 1) = tag 8 True" "ucast (PACK 0 1) = tag 0 True" "ucast (0 :: 64 word) = tag 0 False"
  by (simp_all add: tag_def PACK_def)

lemma chunk_size:
  "(if (1024 :: 64 word) mod 2 \<noteq> 0 then (1024 + 1) * 4 else 1024 * 4) = (of_nat 4096 :: 64 word)"
  by simp

lemma mm_init_ok:
  assumes room: "brk_max s0 - brk s0 < 2 ^ 32"
    and fits: "brk s0 + 4112 \<le> brk_max s0"
  shows "\<exists>s. mm_init s0 = (0, s) \<and> heap_ok s [(4096, False)] \<and> heap_ptr s = brk s0 + 8
            \<and> brk s = brk s0 + 4112 \<and> brk_max s = brk_max s0"
proof -
  define b0 where "b0 = brk s0"
  define m4 where "m4 = (mem s0)(b0 := 0, b0 + 4 := tag 8 True, b0 + 8 := tag 8 True,
                           b0 + 12 := tag 0 True)"
  define s2 where "s2 = s0\<lparr>brk := b0 + 16, mem := m4, heap_ptr := b0 + 8\<rparr>"
  have sb: "sbrk 16 s0 = (Some b0, s0\<lparr>brk := b0 + 16\<rparr>)"
    using fits by (simp add: sbrk_def Let_def b0_def)
  have ok2: "heap_ok s2 []"
    using room fits unfolding heap_ok_def s2_def m4_def b0_def
    by simp
  have fits2: "brk s2 + int 4096 \<le> brk_max s2" using fits by (simp add: s2_def b0_def)
  from extend_ok[OF ok2 chunk_size _ _ _ fits2] obtain s where
    ex: "extend_heap 1024 s2 = (Some (coalesced_at (brk s2) []), s)"
    and ok: "heap_ok s (coalesced [] 4096 [])"
    and fr: "heap_ptr s = heap_ptr s2" "brk s = brk s2 + int 4096" "brk_max s = brk_max s2"
    by auto
  have "mm_init s0 = (0, s)"
    by (simp add: mm_init_def sb Let_def PUT_def tag_numerals ex[unfolded s2_def m4_def])
  then show ?thesis using ok fr by (simp add: coalesced_def s2_def b0_def)
qed

lemma block_addrs_bounds:
  assumes "blocks m q bs" and "a \<in> block_addrs q bs"
  shows "q \<le> a \<and> a < q + int (total bs)"
  using assms by (induction bs arbitrary: q) (fastforce split: if_splits)+

lemma find_fit_heap:
  assumes ok: "heap_ok s bs"
  shows "find_fit r s = Some (first_fit (heap_ptr s + 8) bs (unat r))"
proof -
  note D = heap_okD[OF ok]
  have "mem s (heap_ptr s + int (total ((8, True) # bs)) - 4) = tag 0 True"
    using D(2,3) by (simp add: algebra_simps)
  from find_fit_loop_blocks[OF D(1) this] show ?thesis
    by (simp add: find_fit_def)
qed

lemma place_result:
  assumes ok: "heap_ok s (xs @ (n, False) # ys)"
    and p: "p = heap_ptr s + 8 + int (total xs)"
    and k: "unat r = k" "8 dvd k" "8 \<le> k" "k \<le> n"
  shows "\<exists>bs' n' ys'. heap_ok (s\<lparr>mem := place p r (mem s)\<rparr>) bs'
           \<and> block_addrs (heap_ptr s + 8) bs' = insert p (block_addrs (heap_ptr s + 8) (xs @ (n, False) # ys))
           \<and> p \<notin> block_addrs (heap_ptr s + 8) (xs @ (n, False) # ys)
           \<and> bs' = xs @ (n', True) # ys' \<and> k \<le> n'"
proof -
  note D = heap_okD[OF ok]
  from D(1) have Bx: "blocks (mem s) (heap_ptr s + 8) xs"
    and By: "blocks (mem s) (p + int n) ys" and n: "8 \<le> n"
    by (simp_all add: p algebra_simps)
  have "p \<notin> block_addrs (heap_ptr s + 8) xs"
    using block_addrs_bounds[OF Bx, of p] p by auto
  moreover have "p \<notin> block_addrs (p + int n) ys"
    using block_addrs_bounds[OF By, of p] n by auto
  ultimately have nin: "p \<notin> block_addrs (heap_ptr s + 8) (xs @ (n, False) # ys)"
    by (simp add: p algebra_simps)
  have "\<exists>n' ys'. placed n k @ ys = (n', True) # ys' \<and> k \<le> n'"
    using k(4) by (simp add: placed_def)
  then obtain n' ys' where e: "placed n k @ ys = (n', True) # ys'" and le: "k \<le> n'"
    by blast
  have h: "heap_ok (s\<lparr>mem := place p r (mem s)\<rparr>) (xs @ (n', True) # ys')"
    using place_ok[OF ok p k] by (simp only: e)
  have b: "block_addrs (heap_ptr s + 8) (xs @ (n', True) # ys')
             = insert p (block_addrs (heap_ptr s + 8) (xs @ (n, False) # ys))"
    using block_addrs_placed[OF k(4,3), of "heap_ptr s + 8" xs ys] by (simp only: e p)
  show ?thesis
    using h b nin le by blast
qed

lemma coalesced_last:
  assumes "blocks m q bs"
  shows "\<exists>xs n. coalesced bs k [] = xs @ [(n, False)] \<and> coalesced_at (q + int (total bs)) bs = q + int (total xs)
          \<and> k \<le> n"
proof (cases "bs \<noteq> [] \<and> \<not> snd (last bs)")
  case True
  then obtain xs pn where bs: "bs = xs @ [(pn, False)]"
    by (metis append_butlast_last_id prod.collapse)
  then show ?thesis by (simp add: coalesced_def coalesced_at_def)
next
  case False
  then show ?thesis by (auto simp add: coalesced_def coalesced_at_def)
qed

lemma mm_malloc_ok:
  assumes ok: "heap_ok s bs" and n: "0 < unat n" "unat n \<le> 2 ^ 63 - 24"
  shows "\<exists>r s'. mm_malloc n s = Some (r, s')
          \<and> (r = None \<longrightarrow> s' = s)
          \<and> (\<forall>p. r = Some p \<longrightarrow>
                (\<exists>bs' xs k ys. heap_ok s' bs'
                  \<and> block_addrs (heap_ptr s + 8) bs' = insert p (block_addrs (heap_ptr s + 8) bs)
                  \<and> p \<notin> block_addrs (heap_ptr s + 8) bs
                  \<and> bs' = xs @ (k, True) # ys \<and> p = heap_ptr s + 8 + int (total xs)
                  \<and> unat n + 8 \<le> k
                  \<and> heap_ptr s' = heap_ptr s \<and> brk_max s' = brk_max s))"
proof -
  define K where "K = adjusted (unat n)"
  have uK: "unat (new_size n) = K" using new_size_unat[OF n] by (simp add: K_def)
  have K: "8 dvd K" "8 \<le> K" "unat n + 8 \<le> K" "K < 2 ^ 63 - 8"
    using adjusted_props[of "unat n"] n(2) by (auto simp: K_def)
  have n0: "n \<noteq> 0" using n(1) by auto
  note D = heap_okD[OF ok]
  note ff = find_fit_heap[OF ok, of "new_size n", unfolded uK]
  show ?thesis
  proof (cases "first_fit (heap_ptr s + 8) bs K")
    case (Some p)
    from first_fit_Some[OF Some] obtain xs nf ys where
      bs: "bs = xs @ (nf, False) # ys" and p: "p = heap_ptr s + 8 + int (total xs)" and le: "K \<le> nf"
      by blast
    from place_result[OF ok[unfolded bs] p uK K(1,2) le] obtain bs' n' ys' where
      r: "heap_ok (s\<lparr>mem := place p (new_size n) (mem s)\<rparr>) bs'"
      "block_addrs (heap_ptr s + 8) bs' = insert p (block_addrs (heap_ptr s + 8) bs)"
      "p \<notin> block_addrs (heap_ptr s + 8) bs" "bs' = xs @ (n', True) # ys'" "K \<le> n'"
      unfolding bs by blast
    have mm: "mm_malloc n s = Some (Some p, s\<lparr>mem := place p (new_size n) (mem s)\<rparr>)"
      by (simp add: mm_malloc_def n0 ff Some)
    have "unat n + 8 \<le> n'" using r(5) K(3) by simp
    with r p have "\<exists>bs' xs k ys. heap_ok (s\<lparr>mem := place p (new_size n) (mem s)\<rparr>) bs'
                  \<and> block_addrs (heap_ptr s + 8) bs' = insert p (block_addrs (heap_ptr s + 8) bs)
                  \<and> p \<notin> block_addrs (heap_ptr s + 8) bs
                  \<and> bs' = xs @ (k, True) # ys \<and> p = heap_ptr s + 8 + int (total xs)
                  \<and> unat n + 8 \<le> k" by blast
    then show ?thesis unfolding mm by simp
  next
    case None
    define e where "e = extension K"
    have e: "8 dvd e" "8 \<le> e" "e < 2 ^ 63" "K \<le> e"
      using K by (auto simp: e_def extension_def)
    note sz = extend_size[OF uK K(1,4), unfolded Let_def, folded e_def]
    show ?thesis
    proof (cases "brk s + int e \<le> brk_max s")
      case False
      from extend_heap_fail[OF sz e(3) False] show ?thesis
        by (simp add: mm_malloc_def n0 ff None)
    next
      case True
      from extend_ok[OF ok sz e(1,2,3) True] obtain s1 where
        ex: "extend_heap (extend_words (new_size n)) s = (Some (coalesced_at (brk s) bs), s1)"
        and ok1: "heap_ok s1 (coalesced bs e [])"
        and fr: "heap_ptr s1 = heap_ptr s" "brk_max s1 = brk_max s"
        by blast
      from D(1) have Bb: "blocks (mem s) (heap_ptr s + 8) bs" by simp
      from coalesced_last[OF Bb, of e] obtain xs nf where
        cl: "coalesced bs e [] = xs @ [(nf, False)]"
        and at: "coalesced_at (brk s) bs = heap_ptr s1 + 8 + int (total xs)" and le: "e \<le> nf"
        using D(2) fr(1) by (auto simp: algebra_simps)
      define p where "p = coalesced_at (brk s) bs"
      have le': "K \<le> nf" using le e(4) by simp
      from place_result[OF ok1[unfolded cl] at[folded p_def] uK K(1,2) le'] obtain bs' n' ys' where
        r: "heap_ok (s1\<lparr>mem := place p (new_size n) (mem s1)\<rparr>) bs'"
        "block_addrs (heap_ptr s1 + 8) bs' = insert p (block_addrs (heap_ptr s1 + 8) (coalesced bs e []))"
        "p \<notin> block_addrs (heap_ptr s1 + 8) (coalesced bs e [])" "bs' = xs @ (n', True) # ys'" "K \<le> n'"
        unfolding cl by blast
      have ba: "block_addrs (heap_ptr s + 8) (coalesced bs e []) = block_addrs (heap_ptr s + 8) bs"
        by (simp add: block_addrs_coalesced)
      have mm: "mm_malloc n s = Some (Some p, s1\<lparr>mem := place p (new_size n) (mem s1)\<rparr>)"
        by (simp add: mm_malloc_def n0 ff None ex flip: p_def)
      have "unat n + 8 \<le> n'" using r(5) K(3) by simp
      with r at[folded p_def] have "\<exists>bs' xs k ys. heap_ok (s1\<lparr>mem := place p (new_size n) (mem s1)\<rparr>) bs'
                  \<and> block_addrs (heap_ptr s + 8) bs' = insert p (block_addrs (heap_ptr s + 8) bs)
                  \<and> p \<notin> block_addrs (heap_ptr s + 8) bs
                  \<and> bs' = xs @ (k, True) # ys \<and> p = heap_ptr s + 8 + int (total xs)
                  \<and> unat n + 8 \<le> k" 
        unfolding fr ba by blast
      then show ?thesis unfolding mm using fr by simp
    qed
  qed
qed

lemma extend_heap_shape:
  "extend_heap w s = (r, s') \<Longrightarrow>
     (if fst (sbrk (if w mod 2 \<noteq> 0 then (w + 1) * 4 else w * 4) s) = None
      then r = None \<and> s' = s
      else r \<noteq> None \<and> brk s' = brk (snd (sbrk (if w mod 2 \<noteq> 0 then (w + 1) * 4 else w * 4) s))
           \<and> heap_ptr s' = heap_ptr s \<and> brk_max s' = brk_max s)"
  by (auto simp: extend_heap_def sbrk_def Let_def split: prod.splits if_splits)

lemma mm_init_fst:
  "fst (mm_init s) = (if brk s + 4112 \<le> brk_max s then 0 else - 1)"
proof (cases "brk s + 16 \<le> brk_max s")
  case False
  then show ?thesis by (simp add: mm_init_def sbrk_def Let_def)
next
  case True
  define s2 where "s2 = s\<lparr>brk := brk s + 16,
      mem := PUT (brk s + 12) (PACK 0 1) (PUT (brk s + 8) (PACK 8 1) (PUT (brk s + 4) (PACK 8 1) (PUT (brk s) 0 (mem s)))),
      heap_ptr := brk s + 8\<rparr>"
  obtain r s3 where e: "extend_heap 1024 s2 = (r, s3)" by (cases "extend_heap 1024 s2")
  have "(r = None) = (\<not> brk s + 4112 \<le> brk_max s)"
    using extend_heap_shape[OF e] by (auto simp: sbrk_def Let_def s2_def split: if_splits)
  moreover have "mm_init s = (case r of None \<Rightarrow> (- 1, s3) | Some x \<Rightarrow> (0, s3))"
    using True e by (simp add: mm_init_def sbrk_def Let_def s2_def)
  ultimately show ?thesis by (auto split: option.splits)
qed

lemma store_ok:
  assumes ok: "heap_ok s (xs @ (n, True) # ys)"
    and p: "p = heap_ptr s + 8 + int (total xs)"
    and a: "p \<le> a" "a < FTRP (mem s) p"
  shows "heap_ok (s\<lparr>mem := (mem s)(a := v)\<rparr>) (xs @ (n, True) # ys)"
proof -
  define m where "m = mem s"
  define hp where "hp = heap_ptr s"
  have hp: "hp = p - 8 - int (total xs)" using p by (simp add: hp_def)
  note D = heap_okD[OF ok, folded m_def hp_def]
  have br: "brk s = p + int n + int (total ys)" using D(2) by (simp add: hp)
  have ep: "m (p + int n + int (total ys) - 4) = tag 0 True" using D(3) by (simp add: br)
  from D(1) have bh: "m (p - 4) = tag n True" and bf: "m (p + int n - 8) = tag n True"
    and n: "8 \<le> n" "8 dvd n" "n < 2 ^ 32"
    and Bx: "blocks m (p - 8 - int (total xs)) ((8, True) # xs)" and By: "blocks m (p + int n) ys"
    unfolding hp by (simp_all add: algebra_simps)
  have f: "FTRP m p = p + int n - 8"
    unfolding FTRP_def HDRP_def using GET_SIZE_tag(1)[of m "p - 4", OF bh n(2,3)] by simp
  have a': "a < p + int n - 8" using a(2) f by (simp add: m_def)
  have "blocks (m(a := v)) hp ((8, True) # xs @ (n, True) # ys)"
    unfolding hp using Bx By n bh bf a(1) a'
    by (auto simp: blocks_upd algebra_simps)
  moreover have "(m(a := v)) (brk s - 4) = tag 0 True"
    unfolding br using ep a' by auto
  ultimately show ?thesis using D(2,4-6)
    by (simp add: heap_ok_def flip: m_def hp_def)
qed

lemma reach_heap_ok:
  assumes "reach s L"
  shows "\<exists>bs. heap_ok s bs \<and> L = block_addrs (heap_ptr s + 8) bs"
  using assms
proof (induction rule: reach.induct)
  case (init s0 s)
  have "fst (mm_init s0) = 0" using init(2) by simp
  then have fits: "brk s0 + 4112 \<le> brk_max s0"
    by (simp add: mm_init_fst split: if_splits)
  from mm_init_ok[OF init(1) fits] init(2) have "heap_ok s [(4096, False)]" by auto
  then show ?case by (intro exI[of _ "[(4096, False)]"]) simp
next
  case (malloc s L n r s')
  then obtain bs where ok: "heap_ok s bs" and L: "L = block_addrs (heap_ptr s + 8) bs" by blast
  show ?case
  proof (cases "n = 0")
    case True
    with malloc(3) ok L show ?thesis by (auto simp: mm_malloc_def)
  next
    case False
    then have "0 < unat n" by (simp add: unat_gt_0)
    from mm_malloc_ok[OF ok this malloc(2)] malloc(3) ok L show ?thesis
      by (cases r) auto
  qed
next
  case (free s L p)
  then obtain bs where ok: "heap_ok s bs" and L: "L = block_addrs (heap_ptr s + 8) bs" by blast
  from block_addrs_split[OF free(2)[unfolded L]] obtain xs n ys where
    bs: "bs = xs @ (n, True) # ys" and p: "p = heap_ptr s + 8 + int (total xs)" by blast
  note D = heap_okD[OF ok[unfolded bs]]
  from D(1) have Bx: "blocks (mem s) (heap_ptr s + 8) xs"
    and By: "blocks (mem s) (p + int n) ys" and n: "8 \<le> n"
    by (simp_all add: p algebra_simps)
  have n1: "p \<notin> block_addrs (heap_ptr s + 8) xs"
    using block_addrs_bounds[OF Bx, of p] p by auto
  have n2: "p \<notin> block_addrs (p + int n) ys"
    using block_addrs_bounds[OF By, of p] n by auto
  have hp: "heap_ptr (mm_free p s) = heap_ptr s" by (simp add: mm_free_def Let_def)
  have "L - {p} = block_addrs (heap_ptr s + 8) (coalesced xs n ys)"
    using n1 n2 by (auto simp: L bs block_addrs_coalesced p algebra_simps)
  with free_ok[OF ok[unfolded bs] p] hp show ?case by auto
next
  case (store s L p a v)
  then obtain bs where ok: "heap_ok s bs" and L: "L = block_addrs (heap_ptr s + 8) bs" by blast
  from block_addrs_split[OF store(2)[unfolded L]] obtain xs n ys where
    bs: "bs = xs @ (n, True) # ys" and p: "p = heap_ptr s + 8 + int (total xs)" by blast
  have "heap_ok (s\<lparr>mem := (mem s)(a := v)\<rparr>) bs"
    using store_ok[OF ok[unfolded bs] p store(3,4), of v] by (simp only: bs)
  then show ?case using L by (intro exI[of _ bs]) simp
qed

lemmas eval_defs = mm_init_def sbrk_def extend_heap_def coalesce_def place_def mm_free_def
  PUT_def GET_def GET_SIZE_def GET_ALLOC_def HDRP_def FTRP_def NEXT_BLKP_def PREV_BLKP_def PACK_def
  Let_def new_size_def extend_words_def mm_malloc_def find_fit_def

lemma tag_values:
  "tag 0 True = 1" "tag 8 True = 9" "tag 4096 False = 4096" "tag 16 False = 16"
  "tag 24 False = 24" "tag 32 False = 32" "tag 72 False = 72" "tag 24 True = 25"
  "tag 4072 False = 4072"
  by (simp_all add: tag_def PACK_def)

lemma extend_heap_request:
  "extend_heap w s = (r, s') \<Longrightarrow>
     (if fst (sbrk (request_bytes w) s) = None then r = None \<and> s' = s
      else r \<noteq> None \<and> brk s' = brk s + sint (request_bytes w)
           \<and> heap_ptr s' = heap_ptr s \<and> brk_max s' = brk_max s)"
  using extend_heap_shape[of w s r s']
  by (auto simp: request_bytes_def sbrk_def Let_def split: if_splits)

lemma mm_init_boot: "mm_init boot = (0, booted)"
  by (simp add: boot_def booted_def eval_defs)

lemma mm_malloc_booted: "mm_malloc 48 booted = Some (Some 1000016, serving)"
  by (simp add: booted_def serving_def eval_defs find_fit_loop.simps)

lemma reach_booted: "reach booted {}"
  by (rule reach.init[OF _ mm_init_boot]) (simp add: boot_def)

lemma reach_serving: "reach serving {1000016}"
  using reach.malloc[OF reach_booted _ mm_malloc_booted] by simp

lemma mm_init_askew:
  "mm_init askew = (0, \<lparr>mem = (\<lambda>_. 0)(1000004 := 0, 1000008 := 9, 1000012 := 9, 1000016 := 4096,
                                          1004108 := 4096, 1004112 := 1),
                        heap_ptr = 1000012, brk = 1004116, brk_max = 2000000\<rparr>)"
  by (simp add: askew_def eval_defs)

lemma reach_askew: "reach (snd (mm_init askew)) {}"
  by (rule reach.init[of askew]) (simp_all add: mm_init_askew, simp add: askew_def)

lemma blocks_total_dvd: "blocks m q bs \<Longrightarrow> 8 dvd total bs"
  by (induction bs arbitrary: q) auto

section \<open>The block codec\<close>

text \<open>
  C10. A size that is a multiple of eight (its low three bits are zero) and fits the
  32-bit header word, packed with an allocation flag of 0 or 1 and stored by \<open>PUT\<close>,
  is read back unchanged by \<open>GET_SIZE\<close>, and the flag by \<open>GET_ALLOC\<close>.
\<close>

theorem pack_roundtrip:
  assumes "sz AND 7 = 0" and "sz < 2 ^ 32" and "a = 0 \<or> a = 1"
  shows "ucast (GET_SIZE (PUT p (PACK sz a) m) p) = sz
       \<and> ucast (GET_ALLOC (PUT p (PACK sz a) m) p) = a"
  unfolding GET_SIZE_def GET_ALLOC_def GET_def PUT_def PACK_def
  using codec_size[OF assms] codec_alloc[OF assms(1,3)] by simp

text \<open>The round trip at size 4096 with the allocation flag set.\<close>

theorem pack_roundtrip_witness:
  "ucast (GET_SIZE (PUT 16 (PACK 4096 1) (\<lambda>_. 0)) 16) = (4096 :: 64 word)
   \<and> ucast (GET_ALLOC (PUT 16 (PACK 4096 1) (\<lambda>_. 0)) 16) = (1 :: 64 word)"
  using pack_roundtrip[of 4096 1 16 "\<lambda>_. 0"] by simp

section \<open>Coalescing\<close>

text \<open>
  C5, as amended. Let the block at \<open>bp\<close> have \<open>n\<close> bytes, its predecessor \<open>pn\<close> bytes and
  flag \<open>pa\<close> in header and footer, its successor \<open>nn\<close> bytes and flag \<open>na\<close> in its header
  (and in its footer when it is free; the epilogue is the successor \<open>(0, allocated)\<close>), each
  size a multiple of eight that a header word holds, and let the merged size, \<open>n\<close> plus the
  sizes of the neighbours that are free, stay below \<open>2^32\<close>, the capacity of a header word;
  nothing is asked of the size of a neighbour that is allocated beyond that. Then
  \<open>coalesce\<close> returns \<open>bp\<close> and leaves the memory as it is when both neighbours are
  allocated; with only the successor free it returns \<open>bp\<close> and writes the tag
  \<open>(n + nn, free)\<close> to the header of \<open>bp\<close> and to the successor's footer; with only the
  predecessor free it returns the predecessor's block pointer and writes \<open>(pn + n, free)\<close>
  to the predecessor's header and to the footer of \<open>bp\<close>; with both free it returns the
  predecessor's block pointer and writes \<open>(pn + n + nn, free)\<close> to the predecessor's header
  and the successor's footer. No other word changes.
\<close>

theorem coalesce_cases:
  assumes "m (bp - int pn - 4) = tag pn pa" and "m (bp - 8) = tag pn pa"
    and "m (bp - 4) = tag n b"
    and "m (bp + int n - 4) = tag nn na"
    and "\<not> na \<Longrightarrow> m (bp + int n + int nn - 8) = tag nn na"
    and "8 \<le> pn" and "8 \<le> n" and "8 dvd pn" and "8 dvd n" and "8 dvd nn"
    and "pn < 2 ^ 32" and "nn < 2 ^ 32"
    and "(if pa then 0 else pn) + n + (if na then 0 else nn) < 2 ^ 32"
  shows "coalesce bp m =
     (if pa \<and> na then (bp, m)
      else if pa then
        (bp, m(bp - 4 := tag (n + nn) False, bp + int n + int nn - 8 := tag (n + nn) False))
      else if na then
        (bp - int pn, m(bp + int n - 8 := tag (pn + n) False, bp - int pn - 4 := tag (pn + n) False))
      else
        (bp - int pn, m(bp - int pn - 4 := tag (pn + n + nn) False,
                        bp + int n + int nn - 8 := tag (pn + n + nn) False)))"
  using assms by (rule coalesce_local)


text \<open>
  Both neighbours free: blocks of 16, 24 and 32 bytes become one block of 72 bytes. And in
  \<open>uneven_heap\<close>, where the three sizes together are \<open>2^32\<close>: the predecessor is allocated,
  and the two free blocks of \<open>2^30\<close> bytes become one of \<open>2^31\<close> bytes.
\<close>

theorem coalesce_cases_witness:
  "coalesce 1000040 three_free
     = (1000024, three_free(1000020 := tag 72 False, 1000088 := tag 72 False))
   \<and> coalesce 2148483664 uneven_heap
     = (2148483664, uneven_heap(2148483660 := tag 2147483648 False,
                                4295967304 := tag 2147483648 False))"
  using coalesce_cases[of three_free 1000040 16 False 24 False 32 False]
    coalesce_cases[of uneven_heap 2148483664 2147483648 True 1073741824 False 1073741824 False]
  by (simp add: three_free_def uneven_heap_def tag_def PACK_def)


text \<open>
  C5 as stated fails where the merged size does not fit the header word. \<open>wide_heap\<close> is
  a well-formed chain: the prologue, two free blocks of \<open>2^31\<close> bytes each with matching
  headers and footers, and the epilogue. For the block at 1000016 the predecessor is
  allocated and the successor free; \<open>coalesce\<close> cuts the sum \<open>2^32\<close> to 32 bits and the
  merged header reads size 0.
\<close>

theorem coalesce_wide_counterexample:
  "blocks wide_heap 1000008 [(8, True), (2147483648, False), (2147483648, False)]
   \<and> GET wide_heap (HDRP (1000008 + 8 + 2147483648 + 2147483648)) = tag 0 True
   \<and> uint (GET_SIZE wide_heap (HDRP 1000016)) = 2147483648
   \<and> GET wide_heap (FTRP wide_heap 1000016) = GET wide_heap (HDRP 1000016)
   \<and> NEXT_BLKP wide_heap 1000016 = 2148483664
   \<and> uint (GET_SIZE wide_heap (HDRP 2148483664)) = 2147483648
   \<and> GET wide_heap (FTRP wide_heap 2148483664) = GET wide_heap (HDRP 2148483664)
   \<and> GET_ALLOC wide_heap (HDRP 2148483664) = 0
   \<and> PREV_BLKP wide_heap 1000016 = 1000008
   \<and> GET_ALLOC wide_heap (FTRP wide_heap 1000008) = 1
   \<and> GET wide_heap (FTRP wide_heap 1000008) = GET wide_heap (HDRP 1000008)
   \<and> fst (coalesce 1000016 wide_heap) = 1000016
   \<and> uint (GET_SIZE (snd (coalesce 1000016 wide_heap)) (HDRP 1000016)) = 0
   \<and> uint (GET_SIZE (snd (coalesce 1000016 wide_heap)) (HDRP 1000016)) \<noteq> 2147483648 + 2147483648"
  by (simp add: wide_heap_def eval_defs tag_def)


section \<open>Placement\<close>

text \<open>
  C6, as amended. Let \<open>bp\<close> be a free block of \<open>n\<close> bytes and \<open>r \<le> n\<close> the requested size,
  and let \<open>r\<close> be a multiple of eight and not zero whenever \<open>n - r \<ge> 16\<close>. \<open>place\<close> splits
  exactly when \<open>n - r \<ge> 16\<close>: it then writes an allocated block of \<open>r\<close> bytes at \<open>bp\<close>
  (header and footer) followed by a free block of \<open>n - r\<close> bytes (header at \<open>bp + r - 4\<close>,
  footer at the old footer); otherwise, for every \<open>r\<close>, it marks the whole block of \<open>n\<close>
  bytes allocated. So a free remainder, when there is one, has at least sixteen bytes.
\<close>

theorem place_cases:
  assumes "m (bp - 4) = tag n False" and "8 dvd n" and "n < 2 ^ 32"
    and "unat r \<le> n"
    and "16 \<le> n - unat r \<Longrightarrow> 8 dvd unat r \<and> 0 < unat r"
  shows "place bp r m =
     (if 16 \<le> n - unat r then
        m(bp - 4 := tag (unat r) True, bp + int (unat r) - 8 := tag (unat r) True,
          bp + int (unat r) - 4 := tag (n - unat r) False, bp + int n - 8 := tag (n - unat r) False)
      else m(bp - 4 := tag n True, bp + int n - 8 := tag n True))"
  using place_local[where m=m and bp=bp, OF assms(1-3) refl assms(4,5)] .


text \<open>
  In the free block of 4096 bytes that \<open>mm_init\<close> leaves: placing 24 bytes splits it, and
  placing 4090 bytes, which leaves less than sixteen, takes the whole block.
\<close>

theorem place_cases_witness:
  "place 1000016 24 (mem booted)
     = (mem booted)(1000012 := tag 24 True, 1000032 := tag 24 True,
                    1000036 := tag 4072 False, 1004104 := tag 4072 False)
   \<and> place 1000016 4090 (mem booted)
     = (mem booted)(1000012 := tag 4096 True, 1004104 := tag 4096 True)"
  using place_cases[of "mem booted" 1000016 4096 24]
    place_cases[of "mem booted" 1000016 4096 4090]
  by (simp add: booted_def tag_values)


text \<open>
  C6 as stated fails for requested sizes that are no block sizes. In the free block of
  4096 bytes at 1000016 that \<open>mm_init\<close> leaves, \<open>place\<close> with size 0 takes the branch that
  splits: the block is free with 4096 bytes as before, nothing at \<open>bp\<close> is allocated, and
  the only word that changes is the footer of the prologue before it. With size 20 the
  block at \<open>bp\<close> reads 16 bytes, and the free block after it 4072 bytes.
\<close>

theorem place_request_counterexample:
  "GET (mem booted) (HDRP 1000016) = tag 4096 False
   \<and> GET (mem booted) (FTRP (mem booted) 1000016) = tag 4096 False
   \<and> place 1000016 0 (mem booted) = (mem booted)(1000008 := tag 0 True)
   \<and> mem booted 1000008 = tag 8 True
   \<and> GET_ALLOC (place 1000016 0 (mem booted)) (HDRP 1000016) = 0
   \<and> uint (GET_SIZE (place 1000016 0 (mem booted)) (HDRP 1000016)) = 4096
   \<and> uint (GET_SIZE (place 1000016 20 (mem booted)) (HDRP 1000016)) = 16
   \<and> NEXT_BLKP (place 1000016 20 (mem booted)) 1000016 = 1000032
   \<and> uint (GET_SIZE (place 1000016 20 (mem booted)) (HDRP 1000032)) = 4072"
  by (simp add: booted_def eval_defs tag_def fun_eq_iff)


section \<open>First fit\<close>

text \<open>
  C7. On a memory that holds the blocks \<open>bs\<close> from \<open>heap_ptr\<close> on, followed by the
  epilogue header, \<open>find_fit\<close> returns, and its result is the first fit of the
  specification: \<open>NULL\<close> exactly when no block is both free and large enough, and
  otherwise the block pointer of a free block with enough bytes before which every block
  is allocated or too small.
\<close>

theorem find_fit_first_fit:
  assumes "blocks (mem s) (heap_ptr s) bs"
    and "mem s (heap_ptr s + int (total bs) - 4) = tag 0 True"
  shows "find_fit sz s = Some (first_fit (heap_ptr s) bs (unat sz))
       \<and> (first_fit (heap_ptr s) bs (unat sz) = None
            \<longleftrightarrow> (\<forall>(n, a) \<in> set bs. a \<or> n < unat sz))
       \<and> (\<forall>p. first_fit (heap_ptr s) bs (unat sz) = Some p \<longrightarrow>
            (\<exists>xs n ys. bs = xs @ (n, False) # ys \<and> p = heap_ptr s + int (total xs)
               \<and> unat sz \<le> n \<and> (\<forall>(n', a') \<in> set xs. a' \<or> n' < unat sz)))"
  using find_fit_loop_blocks[OF assms] first_fit_None first_fit_Some
  by (auto simp only: find_fit_def)


text \<open>After \<open>mm_init\<close>: a request of 16 bytes fits the first block, one of 4104 bytes none.\<close>

theorem find_fit_first_fit_witness:
  "find_fit 16 booted = Some (Some 1000016) \<and> find_fit 4104 booted = Some None"
  using find_fit_first_fit[of booted "[(8, True), (4096, False)]" 16]
    find_fit_first_fit[of booted "[(8, True), (4096, False)]" 4104]
  by (simp add: booted_def tag_values)


section \<open>Errors of the public functions\<close>

text \<open>
  C9. On a memory that holds the blocks \<open>bs\<close> from \<open>heap_ptr\<close> on, followed by the
  epilogue header, \<open>mm_malloc\<close> returns for every size, and it returns \<open>NULL\<close> exactly
  when the size is zero, or no block is free and large enough for the adjusted size and
  \<open>sbrk\<close> refuses the extension; whenever it returns \<open>NULL\<close> the state is unchanged.
\<close>

theorem mm_malloc_null:
  assumes "blocks (mem s) (heap_ptr s) bs"
    and "mem s (heap_ptr s + int (total bs) - 4) = tag 0 True"
  shows "\<exists>r s'. mm_malloc n s = Some (r, s')
           \<and> ((r = None) = (n = 0 \<or> ((\<forall>(k, a) \<in> set bs. a \<or> k < unat (new_size n))
                                     \<and> fst (sbrk (request_bytes (extend_words (new_size n))) s) = None)))
           \<and> (r = None \<longrightarrow> s' = s)"
proof (cases "n = 0")
  case True
  then show ?thesis by (simp add: mm_malloc_def)
next
  case n0: False
  have ff: "find_fit (new_size n) s = Some (first_fit (heap_ptr s) bs (unat (new_size n)))"
    using find_fit_loop_blocks[OF assms] by (simp add: find_fit_def)
  show ?thesis
  proof (cases "first_fit (heap_ptr s) bs (unat (new_size n))")
    case (Some p)
    then have "\<not> (\<forall>(k, a) \<in> set bs. a \<or> k < unat (new_size n))"
      using first_fit_None[of "heap_ptr s" bs "unat (new_size n)"] by simp
    then show ?thesis using n0 by (simp add: mm_malloc_def ff Some)
  next
    case None
    then have nofit: "\<forall>(k, a) \<in> set bs. a \<or> k < unat (new_size n)"
      using first_fit_None[of "heap_ptr s" bs "unat (new_size n)"] by simp
    obtain r1 s1 where e: "extend_heap (extend_words (new_size n)) s = (r1, s1)"
      by (cases "extend_heap (extend_words (new_size n)) s")
    from extend_heap_request[OF e] nofit show ?thesis using n0
      by (cases r1) (auto simp: mm_malloc_def ff None e split: if_splits)
  qed
qed


text \<open>After \<open>mm_init\<close>: size zero gives \<open>NULL\<close> and the same state, size 16 a block.\<close>

theorem mm_malloc_null_witness:
  "(\<exists>r s'. mm_malloc 0 booted = Some (r, s') \<and> r = None \<and> s' = booted)
   \<and> (\<exists>r s'. mm_malloc 16 booted = Some (r, s') \<and> r \<noteq> None)"
  using mm_malloc_null[of booted "[(8, True), (4096, False)]" 0]
    mm_malloc_null[of booted "[(8, True), (4096, False)]" 16]
  by (auto simp: booted_def tag_values new_size_def)


text \<open>
  C8, as amended. \<open>mm_init\<close> returns \<open>-1\<close> exactly when \<open>sbrk\<close> refuses the first
  sixteen bytes or the chunk of 4096 bytes after them, and \<open>0\<close> otherwise. When the first
  request fails, memory and break are as before and \<open>heap_ptr\<close> holds \<open>(void * )-1\<close>. When
  the second fails, the sixteen bytes stay allocated, with the padding word, the
  prologue and the epilogue written, and \<open>heap_ptr\<close> at the prologue.
\<close>

theorem mm_init_result:
  "((fst (mm_init s) = - 1) = (fst (sbrk 16 s) = None \<or> fst (sbrk 4096 (snd (sbrk 16 s))) = None))
   \<and> ((fst (mm_init s) = 0) = (\<not> (fst (sbrk 16 s) = None \<or> fst (sbrk 4096 (snd (sbrk 16 s))) = None)))
   \<and> (fst (sbrk 16 s) = None \<longrightarrow> snd (mm_init s) = s\<lparr>heap_ptr := - 1\<rparr>)
   \<and> (fst (sbrk 16 s) \<noteq> None \<and> fst (sbrk 4096 (snd (sbrk 16 s))) = None \<longrightarrow>
        snd (mm_init s) = s\<lparr>brk := brk s + 16,
                              mem := (mem s)(brk s := 0, brk s + 4 := tag 8 True,
                                             brk s + 8 := tag 8 True, brk s + 12 := tag 0 True),
                              heap_ptr := brk s + 8\<rparr>)"
proof -
  have a: "(fst (sbrk 16 s) = None) = (\<not> brk s + 16 \<le> brk_max s)"
    by (simp add: sbrk_def Let_def)
  have b: "(fst (sbrk 4096 (snd (sbrk 16 s))) = None) = (\<not> brk s + 16 \<le> brk_max s \<or> \<not> brk s + 4112 \<le> brk_max s)"
    by (auto simp: sbrk_def Let_def)
  have c: "snd (mm_init s) = s\<lparr>heap_ptr := - 1\<rparr>" if "\<not> brk s + 16 \<le> brk_max s"
    using that by (simp add: mm_init_def sbrk_def Let_def)
  have d: "snd (mm_init s) = s\<lparr>brk := brk s + 16,
                              mem := (mem s)(brk s := 0, brk s + 4 := tag 8 True,
                                             brk s + 8 := tag 8 True, brk s + 12 := tag 0 True),
                              heap_ptr := brk s + 8\<rparr>"
    if t: "brk s + 16 \<le> brk_max s" "\<not> brk s + 4112 \<le> brk_max s"
  proof -
    define s2 where "s2 = s\<lparr>brk := brk s + 16,
                              mem := (mem s)(brk s := 0, brk s + 4 := tag 8 True,
                                             brk s + 8 := tag 8 True, brk s + 12 := tag 0 True),
                              heap_ptr := brk s + 8\<rparr>"
    obtain r s3 where e: "extend_heap 1024 s2 = (r, s3)" by (cases "extend_heap 1024 s2")
    have "r = None \<and> s3 = s2"
      using extend_heap_request[OF e] t by (auto simp: sbrk_def Let_def s2_def request_bytes_def split: if_splits)
    then show ?thesis using t(1) e
      by (simp add: mm_init_def sbrk_def Let_def PUT_def tag_numerals s2_def)
  qed
  show ?thesis
    unfolding a b using c d mm_init_fst[of s] by auto
qed


text \<open>An environment with room for sixteen bytes only, and one with room for all.\<close>

theorem mm_init_result_witness:
  "fst (mm_init tight) = - 1
   \<and> snd (mm_init tight) = tight\<lparr>brk := 1000016,
         mem := (mem tight)(1000000 := 0, 1000004 := tag 8 True, 1000008 := tag 8 True,
                            1000012 := tag 0 True),
         heap_ptr := 1000008\<rparr>
   \<and> fst (mm_init boot) = 0"
  using mm_init_result[of tight] mm_init_result[of boot]
  by (simp add: tight_def boot_def sbrk_def Let_def)


text \<open>
  C8 as stated fails: in \<open>tight\<close> the extension fails and \<open>mm_init\<close> returns \<open>-1\<close>, yet the
  break has moved by sixteen bytes, the prologue is written and \<open>heap_ptr\<close> is set.
\<close>

theorem mm_init_partial_counterexample:
  "fst (mm_init tight) = - 1
   \<and> brk (snd (mm_init tight)) = brk tight + 16
   \<and> heap_ptr (snd (mm_init tight)) = 1000008 \<and> heap_ptr tight = 0
   \<and> mem (snd (mm_init tight)) 1000004 = 9 \<and> mem tight 1000004 = 0
   \<and> snd (mm_init tight) \<noteq> tight"
proof -
  have e: "mm_init tight = (- 1, tight\<lparr>brk := 1000016,
         mem := (\<lambda>_. 0)(1000000 := 0, 1000004 := 9, 1000008 := 9, 1000012 := 1),
         heap_ptr := 1000008\<rparr>)"
    by (simp add: tight_def eval_defs)
  have "brk (snd (mm_init tight)) \<noteq> brk tight" by (simp add: e) (simp add: tight_def)
  then have "snd (mm_init tight) \<noteq> tight" by auto
  then show ?thesis by (simp add: e) (simp add: tight_def)
qed


section \<open>Heap extension\<close>

text \<open>
  C3, as amended. For a request \<open>n\<close> with \<open>0 < n \<le> 2^63 - 24\<close> for which \<open>find_fit\<close>
  fails, the adjusted size is \<open>max 16 (8 * ceil ((n + 8) / 8))\<close> and \<open>mm_malloc\<close> returns;
  it extends the heap by \<open>extension\<close> of the adjusted size: 4096 bytes (1024 words) when
  the adjusted size is at most 4096, and the adjusted size plus eight bytes (two words
  more than the adjusted size) when it is larger. When the environment does not grant
  that, \<open>mm_malloc\<close> returns \<open>NULL\<close> and the state is unchanged.
\<close>

theorem mm_malloc_extension:
  assumes "n \<noteq> 0" and "unat n \<le> 2 ^ 63 - 24" and "find_fit (new_size n) s = Some None"
  shows "unat (new_size n) = adjusted (unat n)
       \<and> (\<exists>r s'. mm_malloc n s = Some (r, s')
            \<and> (if brk s + int (extension (adjusted (unat n))) \<le> brk_max s
                then r \<noteq> None \<and> brk s' = brk s + int (extension (adjusted (unat n)))
                else r = None \<and> s' = s))"
proof -
  have pos: "0 < unat n" using assms(1) by (simp add: unat_gt_0)
  define K where "K = adjusted (unat n)"
  have uK: "unat (new_size n) = K" using new_size_unat[OF pos assms(2)] by (simp add: K_def)
  have K: "8 dvd K" "K < 2 ^ 63 - 8"
    using adjusted_props[of "unat n"] assms(2) by (auto simp: K_def)
  define e where "e = extension K"
  have e: "e < 2 ^ 63" using K by (auto simp: e_def extension_def)
  have rb: "request_bytes (extend_words (new_size n)) = of_nat e"
    using extend_size[OF uK K] by (simp add: request_bytes_def Let_def e_def)
  obtain r1 s1 where ex: "extend_heap (extend_words (new_size n)) s = (r1, s1)"
    by (cases "extend_heap (extend_words (new_size n)) s")
  have sb: "(fst (sbrk (of_nat e) s) = None) = (\<not> brk s + int e \<le> brk_max s)"
    by (simp add: sbrk_def Let_def sint_of_nat64[OF e])
  from extend_heap_request[OF ex] have
    "mm_malloc n s = Some (r1, if r1 = None then s1 else s1\<lparr>mem := place (the r1) (new_size n) (mem s1)\<rparr>)
     \<and> (if brk s + int e \<le> brk_max s then r1 \<noteq> None \<and> brk s1 = brk s + int e
         else r1 = None \<and> s1 = s)"
    using assms(1,3)
    by (cases r1) (auto simp: mm_malloc_def ex rb sb sint_of_nat64[OF e] split: if_splits)
  then show ?thesis unfolding uK by (auto simp: e_def K_def split: if_splits)
qed


text \<open>After \<open>mm_init\<close>, a request of 4096 bytes: adjusted size 4104, extension 4112.\<close>

theorem mm_malloc_extension_witness:
  "unat (new_size 4096) = 4104
   \<and> (\<exists>r s'. mm_malloc 4096 booted = Some (r, s') \<and> r \<noteq> None \<and> brk s' = brk booted + 4112)"
proof -
  have f: "find_fit (new_size 4096) booted = Some None"
    by (simp add: booted_def eval_defs find_fit_loop.simps)
  have a: "adjusted 4096 = 4104" "extension 4104 = 4112"
    by (simp_all add: adjusted_def extension_def)
  show ?thesis
    using mm_malloc_extension[of 4096 booted, OF _ _ f]
    by (simp add: a booted_def)
qed


text \<open>
  C3 as stated fails: after \<open>mm_init\<close>, \<open>mm_malloc(4096)\<close> finds no fit, its adjusted
  size is 4104 bytes (1026 words), and the heap grows by 4112 bytes (1028 words), not by
  the maximum of 1026 and 1024 words.
\<close>

theorem extension_oversized_counterexample:
  "find_fit (new_size 4096) booted = Some None
   \<and> new_size 4096 = 4104
   \<and> (case mm_malloc 4096 booted of
         Some (r, s') \<Rightarrow> r \<noteq> None \<and> brk s' - brk booted = 4112
            \<and> brk s' - brk booted \<noteq> 4 * max (4104 div 4) (4096 div 4)
       | None \<Rightarrow> False)"
  by (simp add: booted_def eval_defs find_fit_loop.simps)


section \<open>Invariants of the reachable states\<close>

text \<open>
  C4, as amended. In every reachable state (requests of at most \<open>2^63 - 24\<close> bytes, an
  environment that grants less than \<open>2^32\<close> bytes, any initial break, aligned or not) the
  prologue header and footer hold
  the tag \<open>(8, allocated)\<close>, eight bytes being header plus footer and not the sixteen
  bytes that are the floor of an allocation; the word before the break is the epilogue
  header \<open>(0, allocated)\<close>; the blocks from the prologue on end at the epilogue; and every
  pointer the client holds lies strictly between the prologue and the epilogue, so
  neither sentinel is handed out.
\<close>

theorem sentinels_kept:
  assumes "reach s L"
  shows "GET (mem s) (HDRP (heap_ptr s)) = tag 8 True
       \<and> GET (mem s) (FTRP (mem s) (heap_ptr s)) = tag 8 True
       \<and> FTRP (mem s) (heap_ptr s) = heap_ptr s
       \<and> GET (mem s) (HDRP (brk s)) = tag 0 True
       \<and> (\<exists>bs. blocks (mem s) (heap_ptr s) ((8, True) # bs)
                \<and> brk s = heap_ptr s + 8 + int (total bs))
       \<and> (\<forall>p \<in> L. heap_ptr s < p \<and> p < brk s)"
proof -
  from reach_heap_ok[OF assms] obtain bs where
    ok: "heap_ok s bs" and L: "L = block_addrs (heap_ptr s + 8) bs" by blast
  note D = heap_okD[OF ok]
  from D(1) have h: "mem s (heap_ptr s - 4) = tag 8 True" and f: "mem s (heap_ptr s) = tag 8 True"
    and B: "blocks (mem s) (heap_ptr s + 8) bs"
    by simp_all
  have ft: "FTRP (mem s) (heap_ptr s) = heap_ptr s"
    unfolding FTRP_def HDRP_def using GET_SIZE_tag(1)[of "mem s" "heap_ptr s - 4" 8 True, OF h] by simp
  have "\<forall>p \<in> L. heap_ptr s < p \<and> p < brk s"
    using block_addrs_bounds[OF B] D(2) unfolding L by fastforce
  then show ?thesis using h f ft D(1,2,3)
    by (auto simp: GET_def HDRP_def)
qed


text \<open>
  The state of the driver after \<open>mm_init\<close> and \<open>mm_malloc(48)\<close>, and the state after
  \<open>mm_init\<close> on the break 1000004.
\<close>

theorem sentinels_kept_witness:
  "GET (mem serving) (HDRP (heap_ptr serving)) = tag 8 True
   \<and> GET (mem serving) (FTRP (mem serving) (heap_ptr serving)) = tag 8 True
   \<and> GET (mem serving) (HDRP (brk serving)) = tag 0 True
   \<and> heap_ptr serving < 1000016 \<and> 1000016 < brk serving
   \<and> heap_ptr (snd (mm_init askew)) = 1000012
   \<and> GET (mem (snd (mm_init askew))) (HDRP 1000012) = tag 8 True
   \<and> GET (mem (snd (mm_init askew))) (HDRP (brk (snd (mm_init askew)))) = tag 0 True"
  using sentinels_kept[OF reach_serving] sentinels_kept[OF reach_askew]
  by (auto simp: GET_def mm_init_askew)


text \<open>
  C4 as stated fails: the prologue that \<open>mm_init\<close> writes has eight bytes, and the floor
  of an allocation request (the adjusted size of a request of one byte) is sixteen. And
  without the bound on the request the prologue is not kept: after \<open>mm_malloc(2^64 - 8)\<close>
  its footer reads size 0.
\<close>

theorem prologue_size_counterexample:
  "mm_init boot = (0, booted)
   \<and> uint (GET_SIZE (mem booted) (HDRP (heap_ptr booted))) = 8
   \<and> GET (mem booted) (FTRP (mem booted) (heap_ptr booted)) = GET (mem booted) (HDRP (heap_ptr booted))
   \<and> new_size 1 = 16
   \<and> GET (mem booted) (HDRP (heap_ptr booted)) \<noteq> ucast (PACK (new_size 1) 1)
   \<and> (case mm_malloc 18446744073709551608 booted of
         Some (r, s') \<Rightarrow> r = Some 1000016 \<and> heap_ptr s' = heap_ptr booted
            \<and> FTRP (mem s') (heap_ptr s') = heap_ptr s'
            \<and> uint (GET_SIZE (mem s') (FTRP (mem s') (heap_ptr s'))) = 0
       | None \<Rightarrow> False)"
  by (simp add: mm_init_boot) (simp add: booted_def eval_defs find_fit_loop.simps)


text \<open>
  X1. Containment for bounded requests (the part of C1 that holds): in a reachable state
  whose heap starts at a multiple of eight, a request of at most \<open>2^63 - 24\<close> bytes that
  succeeds returns a pointer that is a multiple of eight, to an allocated block whose
  size less header and footer is at least the request, and that the client did not hold;
  the adjusted size is \<open>max 16 (8 * ceil ((n + 8) / 8))\<close>.
\<close>

theorem malloc_containment:
  assumes "reach s L" and "unat n \<le> 2 ^ 63 - 24" and "mm_malloc n s = Some (Some p, s')"
    and "heap_ptr s mod 8 = 0"
  shows "p mod 8 = 0
       \<and> int (unat n) \<le> uint (GET_SIZE (mem s') (HDRP p)) - 8
       \<and> GET_ALLOC (mem s') (HDRP p) = 1
       \<and> p \<notin> L
       \<and> unat (new_size n) = max 16 (8 * ((unat n + 8 + 7) div 8))"
proof -
  from reach_heap_ok[OF assms(1)] obtain bs where
    ok: "heap_ok s bs" and L: "L = block_addrs (heap_ptr s + 8) bs" by blast
  have n0: "n \<noteq> 0" using assms(3) by (auto simp: mm_malloc_def)
  then have pos: "0 < unat n" by (simp add: unat_gt_0)
  from mm_malloc_ok[OF ok pos assms(2)] assms(3) obtain bs' xs k ys where
    ok': "heap_ok s' bs'" and nin: "p \<notin> block_addrs (heap_ptr s + 8) bs"
    and bs': "bs' = xs @ (k, True) # ys" and p: "p = heap_ptr s + 8 + int (total xs)"
    and k: "unat n + 8 \<le> k" and hp: "heap_ptr s' = heap_ptr s"
    by auto
  note D = heap_okD[OF ok'[unfolded bs']]
  from D(1) have h: "mem s' (p - 4) = tag k True" and kk: "8 dvd k" "k < 2 ^ 32"
    and Bx: "blocks (mem s') (heap_ptr s' + 8) xs"
    by (simp_all add: p hp algebra_simps)
  have sz: "uint (GET_SIZE (mem s') (HDRP p)) = int k"
    using GET_SIZE_tag(1)[of "mem s'" "p - 4", OF h kk] by (simp add: HDRP_def)
  have al: "GET_ALLOC (mem s') (HDRP p) = 1"
    using GET_ALLOC_tag(1)[of "mem s'" "p - 4", OF h kk(1)] by (simp add: HDRP_def)
  have "8 dvd int (total xs)" using blocks_total_dvd[OF Bx] by presburger
  then have "p mod 8 = 0" using assms(4) unfolding p by presburger
  moreover have "unat (new_size n) = max 16 (8 * ((unat n + 8 + 7) div 8))"
    using new_size_unat[OF pos assms(2)] by (simp add: adjusted_def)
  moreover have "int (unat n) \<le> uint (GET_SIZE (mem s') (HDRP p)) - 8"
    using sz k by linarith
  ultimately show ?thesis using al nin L by blast
qed


text \<open>The \<open>mm_malloc(48)\<close> of the driver.\<close>

theorem malloc_containment_witness:
  "(1000016 :: int) mod 8 = 0
   \<and> int (unat (48 :: 64 word)) \<le> uint (GET_SIZE (mem serving) (HDRP 1000016)) - 8
   \<and> GET_ALLOC (mem serving) (HDRP 1000016) = 1"
  using malloc_containment[OF reach_booted _ mm_malloc_booted] by (simp add: booted_def)


text \<open>
  X2. No two adjacent free blocks for bounded requests (the part of C2 that holds): in every
  reachable state the heap is a sequence of blocks between prologue and epilogue in
  which no two neighbours are free, and the pointers the client holds are the allocated
  blocks.
\<close>

theorem no_adjacent_free_bounded:
  assumes "reach s L"
  shows "\<exists>bs. blocks (mem s) (heap_ptr s) ((8, True) # bs)
             \<and> brk s = heap_ptr s + 8 + int (total bs)
             \<and> GET (mem s) (HDRP (brk s)) = tag 0 True
             \<and> no_adjacent_free bs
             \<and> L = block_addrs (heap_ptr s + 8) bs"
proof -
  from reach_heap_ok[OF assms] obtain bs where
    ok: "heap_ok s bs" and L: "L = block_addrs (heap_ptr s + 8) bs" by blast
  note D = heap_okD[OF ok]
  show ?thesis using D(1-4) L by (auto simp: GET_def HDRP_def)
qed


text \<open>The state of the driver after \<open>mm_init\<close> and \<open>mm_malloc(48)\<close>, once more.\<close>

theorem no_adjacent_free_bounded_witness:
  "\<exists>bs. blocks (mem serving) (heap_ptr serving) ((8, True) # bs)
             \<and> brk serving = heap_ptr serving + 8 + int (total bs)
             \<and> no_adjacent_free bs
             \<and> {1000016} = block_addrs (heap_ptr serving + 8) bs"
  using no_adjacent_free_bounded[OF reach_serving] by blast


section \<open>Allocation scenarios\<close>

text \<open>
  X3, reuse: after \<open>mm_init\<close>, \<open>a = mm_malloc(48)\<close>, any words \<open>v\<close> and \<open>w\<close> stored in the
  first and the last word of the payload of \<open>a\<close>, \<open>mm_free(a)\<close> and \<open>b = mm_malloc(48)\<close>:
  \<open>b\<close> is \<open>a\<close>.
\<close>

theorem reuse_scenario:
  "mm_init boot = (0, booted)
   \<and> (case mm_malloc 48 booted of
         Some (a, s1) \<Rightarrow>
           a = Some 1000016
           \<and> (case mm_malloc 48 (mm_free 1000016 (s1\<lparr>mem := (mem s1)(1000016 := v, 1000060 := w)\<rparr>)) of
                 Some (b, s2) \<Rightarrow> b = a
               | None \<Rightarrow> False)
       | None \<Rightarrow> False)"
  by (simp add: mm_init_boot) (simp add: booted_def eval_defs find_fit_loop.simps)


text \<open>
  X4, merge: after \<open>mm_init\<close>, three requests of 48 bytes take three adjacent blocks of 56
  bytes at 1000016, 1000072 and 1000128. Freeing the first, the third and then the second
  leaves one free block at 1000016, followed by the epilogue. Its header reads 4096 bytes:
  the three blocks and the free remainder of the chunk, with which the third block was
  merged when it was freed.
\<close>

theorem merge_scenario:
  "(case mm_malloc 48 booted of
      Some (a, s1) \<Rightarrow>
        (case mm_malloc 48 s1 of
           Some (b, s2) \<Rightarrow>
             (case mm_malloc 48 s2 of
                Some (c, s3) \<Rightarrow>
                  a = Some 1000016 \<and> b = Some 1000072 \<and> c = Some 1000128
                  \<and> uint (GET_SIZE (mem s3) (HDRP 1000016)) = 56
                  \<and> uint (GET_SIZE (mem s3) (HDRP 1000072)) = 56
                  \<and> uint (GET_SIZE (mem s3) (HDRP 1000128)) = 56
                  \<and> GET (mem (mm_free 1000072 (mm_free 1000128 (mm_free 1000016 s3)))) (HDRP 1000016)
                      = tag 4096 False
                  \<and> GET (mem (mm_free 1000072 (mm_free 1000128 (mm_free 1000016 s3)))) (HDRP 1004112)
                      = tag 0 True
                  \<and> NEXT_BLKP (mem (mm_free 1000072 (mm_free 1000128 (mm_free 1000016 s3)))) 1000016
                      = 1004112
              | None \<Rightarrow> False)
         | None \<Rightarrow> False)
    | None \<Rightarrow> False)"
proof -
  define s2 where "s2 = \<lparr>mem = (\<lambda>_. 0)(1000000 := 0, 1000004 := 9, 1000008 := 9, 1004108 := 1,
      1000012 := 57, 1000064 := 57, 1000068 := 57, 1000120 := 57, 1000124 := 3984,
      1004104 := 3984), heap_ptr = 1000008, brk = 1004112, brk_max = 2000000\<rparr>"
  define s3 where "s3 = \<lparr>mem = (\<lambda>_. 0)(1000000 := 0, 1000004 := 9, 1000008 := 9, 1004108 := 1,
      1000012 := 57, 1000064 := 57, 1000068 := 57, 1000120 := 57, 1000124 := 57,
      1000176 := 57, 1000180 := 3928, 1004104 := 3928),
      heap_ptr = 1000008, brk = 1004112, brk_max = 2000000\<rparr>"
  define s4 where "s4 = \<lparr>mem = (\<lambda>_. 0)(1000000 := 0, 1000004 := 9, 1000008 := 9, 1004108 := 1,
      1000068 := 57, 1000120 := 57, 1000124 := 57, 1000176 := 57, 1000180 := 3928,
      1004104 := 3928, 1000012 := 56, 1000064 := 56),
      heap_ptr = 1000008, brk = 1004112, brk_max = 2000000\<rparr>"
  define s5 where "s5 = \<lparr>mem = (\<lambda>_. 0)(1000000 := 0, 1000004 := 9, 1000008 := 9, 1004108 := 1,
      1000068 := 57, 1000120 := 57, 1000180 := 3928, 1000012 := 56, 1000064 := 56,
      1000176 := 56, 1000124 := 3984, 1004104 := 3984),
      heap_ptr = 1000008, brk = 1004112, brk_max = 2000000\<rparr>"
  have b: "mm_malloc 48 serving = Some (Some 1000072, s2)"
    by (simp add: serving_def s2_def eval_defs find_fit_loop.simps)
  have c: "mm_malloc 48 s2 = Some (Some 1000128, s3)"
    by (simp add: s2_def s3_def eval_defs find_fit_loop.simps)
  have f1: "mm_free 1000016 s3 = s4"
    by (simp add: s3_def s4_def eval_defs)
  have f2: "mm_free 1000128 s4 = s5"
    by (simp add: s4_def s5_def eval_defs)
  have r: "uint (GET_SIZE (mem s3) (HDRP 1000016)) = 56
           \<and> uint (GET_SIZE (mem s3) (HDRP 1000072)) = 56
           \<and> uint (GET_SIZE (mem s3) (HDRP 1000128)) = 56"
    by (simp add: s3_def eval_defs)
  have f3: "GET (mem (mm_free 1000072 s5)) (HDRP 1000016) = tag 4096 False
            \<and> GET (mem (mm_free 1000072 s5)) (HDRP 1004112) = tag 0 True
            \<and> NEXT_BLKP (mem (mm_free 1000072 s5)) 1000016 = 1004112"
    by (simp add: s5_def eval_defs tag_values)
  show ?thesis
    by (simp add: mm_malloc_booted b c f1 f2 r f3)
qed


text \<open>
  X5, a request of \<open>2^63\<close> bytes after \<open>mm_init\<close>: no block fits, the argument of \<open>sbrk\<close>
  is \<open>2^63 + 16\<close>, a negative increment that would put the break below address zero;
  \<open>sbrk\<close> refuses, and \<open>mm_malloc\<close> returns \<open>NULL\<close> with the state unchanged.
\<close>

theorem refused_scenario:
  "find_fit (new_size 9223372036854775808) booted = Some None
   \<and> request_bytes (extend_words (new_size 9223372036854775808)) = 9223372036854775824
   \<and> sint (9223372036854775824 :: 64 word) = - 9223372036854775792
   \<and> fst (sbrk 9223372036854775824 booted) = None
   \<and> mm_malloc 9223372036854775808 booted = Some (None, booted)"
  by (simp add: booted_def eval_defs request_bytes_def find_fit_loop.simps)


section \<open>Requests that wrap around\<close>

text \<open>
  C1 fails on the code. After \<open>mm_init\<close>, \<open>mm_malloc(SIZE_MAX)\<close>: \<open>DSIZE + size\<close> wraps
  around, the adjusted size is 8, \<open>find_fit\<close> succeeds, and the block returned has eight
  bytes, header and footer only: its payload of zero bytes is smaller than the request.
\<close>

theorem malloc_wraps:
  "mm_init boot = (0, booted)
   \<and> new_size 18446744073709551615 = 8
   \<and> (case mm_malloc 18446744073709551615 booted of
         Some (Some p, s') \<Rightarrow>
           p = 1000016 \<and> uint (GET_SIZE (mem s') (HDRP p)) = 8 \<and> GET_ALLOC (mem s') (HDRP p) = 1
           \<and> uint (GET_SIZE (mem s') (HDRP p)) - 8 < 18446744073709551615
       | _ \<Rightarrow> False)"
  by (simp add: mm_init_boot) (simp add: booted_def eval_defs find_fit_loop.simps)


text \<open>
  C2 fails on the code. After \<open>mm_init\<close>, \<open>mm_malloc(2^64 - 8)\<close> has adjusted size 0:
  \<open>place\<close> leaves the first block free, returns it, and overwrites the prologue footer
  with \<open>(0, allocated)\<close>. Two requests of 16 bytes then take the blocks at 1000016 and
  1000040. \<open>mm_free\<close> of the first reads size 0 in the footer before it, takes the block
  for its own free predecessor and doubles its size: walking the headers from the
  prologue, the block at 1000016 is free with 48 bytes, the next block at 1000064 is free
  with 4048 bytes, and the epilogue follows.
\<close>

theorem free_merges_block_with_itself:
  "mm_init boot = (0, booted)
   \<and> new_size 18446744073709551608 = 0
   \<and> (case mm_malloc 18446744073709551608 booted of
         Some (z, s2) \<Rightarrow>
           (case mm_malloc 16 s2 of
              Some (b, s3) \<Rightarrow>
                (case mm_malloc 16 s3 of
                   Some (c, s4) \<Rightarrow>
                     z = Some 1000016 \<and> b = Some 1000016 \<and> c = Some 1000040
                     \<and> NEXT_BLKP (mem (mm_free 1000016 s4)) (heap_ptr s4) = 1000016
                     \<and> GET_ALLOC (mem (mm_free 1000016 s4)) (HDRP 1000016) = 0
                     \<and> uint (GET_SIZE (mem (mm_free 1000016 s4)) (HDRP 1000016)) = 48
                     \<and> NEXT_BLKP (mem (mm_free 1000016 s4)) 1000016 = 1000064
                     \<and> GET_ALLOC (mem (mm_free 1000016 s4)) (HDRP 1000064) = 0
                     \<and> uint (GET_SIZE (mem (mm_free 1000016 s4)) (HDRP 1000064)) = 4048
                     \<and> NEXT_BLKP (mem (mm_free 1000016 s4)) 1000064 = brk (mm_free 1000016 s4)
                     \<and> GET (mem (mm_free 1000016 s4)) (HDRP (brk (mm_free 1000016 s4))) = 1
                 | None \<Rightarrow> False)
            | None \<Rightarrow> False)
       | None \<Rightarrow> False)"
  by (simp add: mm_init_boot) (simp add: booted_def eval_defs find_fit_loop.simps)

end
